theory Spec2Isabelle
  imports Main
begin

section \<open>Data model of the deployment pipeline\<close>

text \<open>
  The records follow \<^verbatim>\<open>libs/types/src/deployment.ts\<close>. An optional property
  \<^verbatim>\<open>f?: T\<close> is a field of type \<open>T option\<close>. Numbers that the code only uses as
  millisecond counts are \<open>nat\<close>; an ISO time stamp is the clock reading it is made from.
  Several interfaces share property names, so selectors are written qualified
  (\<open>StepResult.status\<close>).
\<close>

type_synonym env_vars = "(string \<times> string) list"

record DeploymentStep =
  name :: string
  command :: string
  workingDirectory :: "string option"
  env :: "env_vars option"
  timeout :: "nat option"
  continueOnError :: "bool option"

record E2ETestConfig =
  command :: string
  workingDirectory :: "string option"
  waitForUrl :: "string option"
  waitTimeout :: "nat option"
  env :: "env_vars option"
  timeout :: "nat option"

record DeploymentConfig =
  version :: int
  autoDeployOnComplete :: bool
  buildSteps :: "DeploymentStep list"
  deploySteps :: "DeploymentStep list"
  e2eTests :: "E2ETestConfig option"
  healthCheckUrl :: "string option"
  healthCheckTimeout :: "nat option"

definition DEFAULT_DEPLOYMENT_CONFIG :: DeploymentConfig where
  "DEFAULT_DEPLOYMENT_CONFIG =
     \<lparr>version = 1, autoDeployOnComplete = False, buildSteps = [], deploySteps = [],
      e2eTests = None, healthCheckUrl = None, healthCheckTimeout = None\<rparr>"

datatype DeploymentStatus =
  Idle | Building | Deploying | WaitingForHealth | RunningTests | Success | Failed

datatype StepStatus = StepSuccess | StepFailed | StepSkipped

record StepResult =
  stepName :: string
  status :: StepStatus
  output' :: string
  error :: "string option"
  durationMs :: nat

datatype E2EStatus = E2EPassed | E2EFailed | E2ESkipped

record E2ETestResult =
  status :: E2EStatus
  output' :: string
  error :: "string option"
  durationMs :: nat
  passed :: "nat option"
  failed :: "nat option"
  skipped :: "nat option"

datatype Trigger = Manual | AutoModeComplete

record DeploymentResult =
  id :: string
  startedAt :: nat
  finishedAt :: "nat option"
  status :: DeploymentStatus
  buildResults :: "StepResult list"
  deployResults :: "StepResult list"
  e2eResult :: "E2ETestResult option"
  error :: "string option"
  trigger :: Trigger
  featureIds :: "string list option"

datatype DeploymentEventType =
  DeploymentStarted
  | BuildStepStarted | BuildStepCompleted
  | DeployStepStarted | DeployStepCompleted
  | HealthCheckStarted | HealthCheckCompleted
  | E2EStarted | E2EOutput | E2ECompleted
  | DeploymentCompleted | DeploymentFailed

datatype EventResult =
  OfStep StepResult | OfE2E E2ETestResult | OfDeployment DeploymentResult

record EventData =
  stepName :: "string option"
  status :: "string option"
  output' :: "string option"
  error :: "string option"
  result :: "EventResult option"

record DeploymentEvent =
  type :: DeploymentEventType
  deploymentId :: string
  timestamp :: nat
  data :: "EventData option"

section \<open>JavaScript values the code relies on\<close>

text \<open>A thrown \<^verbatim>\<open>Error\<close>, by its message.\<close>

datatype js_error = Error string

text \<open>Truthiness of an optional string: \<^verbatim>\<open>undefined\<close> and \<^verbatim>\<open>''\<close> are falsy.\<close>

fun truthy_string :: "string option \<Rightarrow> bool" where
  "truthy_string None = False"
| "truthy_string (Some s) = (s \<noteq> [])"

text \<open>\<^verbatim>\<open>n || d\<close> on an optional number: \<^verbatim>\<open>undefined\<close> and \<^verbatim>\<open>0\<close> give \<open>d\<close>.\<close>

fun number_or :: "nat option \<Rightarrow> nat \<Rightarrow> nat" where
  "number_or None d = d"
| "number_or (Some n) d = (if n = 0 then d else n)"

fun truthy_bool :: "bool option \<Rightarrow> bool" where
  "truthy_bool None = False"
| "truthy_bool (Some b) = b"

fun env_or_empty :: "env_vars option \<Rightarrow> env_vars" where
  "env_or_empty None = []"
| "env_or_empty (Some e) = e"

text \<open>\<^verbatim>\<open>Number.prototype.toString(radix)\<close> on a natural number.\<close>

definition digit_of :: "nat \<Rightarrow> char" where
  "digit_of d = ''0123456789abcdefghijklmnopqrstuvwxyz'' ! d"

function to_radix :: "nat \<Rightarrow> nat \<Rightarrow> string" where
  "to_radix r n =
     (if r < 2 \<or> n < r then [digit_of n] else to_radix r (n div r) @ [digit_of (n mod r)])"
  by pat_completeness auto
termination
  by (relation "measure (\<lambda>(r, n). n)") auto

declare to_radix.simps [simp del]

definition show_nat :: "nat \<Rightarrow> string" where
  "show_nat n = to_radix 10 n"

text \<open>The template literal \<^verbatim>\<open>${code}\<close> on an exit code, which Node reports as a number
  or as \<^verbatim>\<open>null\<close> (the child was ended by a signal).\<close>

fun show_code :: "int option \<Rightarrow> string" where
  "show_code None = ''null''"
| "show_code (Some c) = (if c < 0 then ''-'' @ show_nat (nat (- c)) else show_nat (nat c))"

text \<open>\<^verbatim>\<open>path.join\<close> of segments, without the normalisation of \<^verbatim>\<open>.\<close> and \<^verbatim>\<open>..\<close>.\<close>

fun path_join :: "string list \<Rightarrow> string" where
  "path_join [] = ''.''"
| "path_join [p] = p"
| "path_join (p # ps) = p @ ''/'' @ path_join ps"

section \<open>The step executor: \<^verbatim>\<open>executeCommand\<close>\<close>

text \<open>
  \<^verbatim>\<open>executeCommand\<close> spawns a shell, registers callbacks for the child's
  \<^verbatim>\<open>data\<close>, \<^verbatim>\<open>close\<close> and \<^verbatim>\<open>error\<close> events, arms a timer and returns a promise.
  What the child does is the environment's: the events Node delivers for it, in
  order, each with its delay in milliseconds since the spawn. The callbacks run one
  event at a time until one of them calls \<^verbatim>\<open>resolve\<close>; a later \<^verbatim>\<open>resolve\<close> does not
  change a settled promise, so the run stops there. The timer callback runs once
  \<open>timeoutMs\<close> have passed, before an event that is due at the same instant (the event
  loop runs timers before I/O callbacks), and at the latest when the child is silent.
  The result is the value the promise settles with, the delay after which it does,
  and the signals sent to the child by then.
\<close>

datatype proc_event =
  StdoutData string
  | StderrData string
  | Close "int option"
  | SpawnError string

type_synonym process = "(nat \<times> proc_event) list"

datatype signal = SIGTERM

record exec_result =
  success :: bool
  output' :: string
  error :: "string option"

type_synonym settlement = "exec_result \<times> nat \<times> signal list"

definition on_timeout :: "nat \<Rightarrow> string \<Rightarrow> settlement" where
  "on_timeout timeoutMs stdout =
     (\<lparr>success = False, output' = stdout,
       error = Some (''Command timed out after '' @ show_nat timeoutMs @ ''ms'')\<rparr>,
      timeoutMs, [SIGTERM])"

definition on_close :: "int option \<Rightarrow> nat \<Rightarrow> string \<Rightarrow> string \<Rightarrow> settlement" where
  "on_close code at stdout stderr =
     (\<lparr>success = (code = Some 0),
       output' = stdout @ (if stderr \<noteq> [] then [CHR 0x0A] @ ''[stderr]'' @ [CHR 0x0A] @ stderr else []),
       error = (if code \<noteq> Some 0 then Some (''Exit code: '' @ show_code code) else None)\<rparr>,
      at, [])"

definition on_error :: "string \<Rightarrow> nat \<Rightarrow> string \<Rightarrow> settlement" where
  "on_error msg at stdout = (\<lparr>success = False, output' = stdout, error = Some msg\<rparr>, at, [])"

fun executeCommand_loop :: "nat \<Rightarrow> string \<Rightarrow> string \<Rightarrow> process \<Rightarrow> settlement" where
  "executeCommand_loop timeoutMs stdout stderr [] = on_timeout timeoutMs stdout"
| "executeCommand_loop timeoutMs stdout stderr ((at, e) # es) =
     (if at < timeoutMs
      then (case e of
              StdoutData d \<Rightarrow> executeCommand_loop timeoutMs (stdout @ d) stderr es
            | StderrData d \<Rightarrow> executeCommand_loop timeoutMs stdout (stderr @ d) es
            | Close code \<Rightarrow> on_close code at stdout stderr
            | SpawnError msg \<Rightarrow> on_error msg at stdout)
      else on_timeout timeoutMs stdout)"

definition executeCommand :: "nat \<Rightarrow> process \<Rightarrow> settlement" where
  "executeCommand timeoutMs p = executeCommand_loop timeoutMs [] [] p"

text \<open>Whether the child has ended by the instant \<open>at\<close> after the spawn: Node has
  delivered its \<^verbatim>\<open>close\<close> event, or it was never started.\<close>

fun ends_child :: "proc_event \<Rightarrow> bool" where
  "ends_child (Close code) = True"
| "ends_child (SpawnError msg) = True"
| "ends_child e = False"

definition child_ended_by :: "nat \<Rightarrow> process \<Rightarrow> bool" where
  "child_ended_by at p = list_ex (\<lambda>(d, e). d \<le> at \<and> ends_child e) p"

text \<open>What the child wrote to each stream.\<close>

fun stdout_of :: "process \<Rightarrow> string" where
  "stdout_of [] = []"
| "stdout_of ((at, StdoutData d) # es) = d @ stdout_of es"
| "stdout_of (e # es) = stdout_of es"

fun stderr_of :: "process \<Rightarrow> string" where
  "stderr_of [] = []"
| "stderr_of ((at, StderrData d) # es) = d @ stderr_of es"
| "stderr_of (e # es) = stderr_of es"

text \<open>The exit code the call comes to know: that of a \<^verbatim>\<open>close\<close> event delivered before
  the timer fires and before any failure to spawn.\<close>

fun observed_exit :: "nat \<Rightarrow> process \<Rightarrow> int option option" where
  "observed_exit timeoutMs [] = None"
| "observed_exit timeoutMs ((at, e) # es) =
     (if at < timeoutMs
      then (case e of
              Close code \<Rightarrow> Some code
            | SpawnError msg \<Rightarrow> None
            | StdoutData d \<Rightarrow> observed_exit timeoutMs es
            | StderrData d \<Rightarrow> observed_exit timeoutMs es)
      else None)"

section \<open>The health probe: \<^verbatim>\<open>waitForUrl\<close>\<close>

text \<open>
  The network is the environment's: a GET of \<open>url\<close> issued at instant \<open>now\<close> takes
  some time and then gives a response with a status, or \<^verbatim>\<open>fetch\<close> throws. The sleep
  between two attempts is a \<^verbatim>\<open>setTimeout\<close>, whose delay Node raises to one millisecond
  when it is smaller. The function returns its value and the instant it returns at.
\<close>

datatype fetch_outcome = Response nat | ConnectionError

type_synonym network = "string \<Rightarrow> nat \<Rightarrow> nat \<times> fetch_outcome"

text \<open>\<^verbatim>\<open>response.ok || response.status < 500\<close>\<close>

fun reachable :: "fetch_outcome \<Rightarrow> bool" where
  "reachable (Response st) = ((200 \<le> st \<and> st \<le> 299) \<or> st < 500)"
| "reachable ConnectionError = False"

function waitForUrl_loop :: "network \<Rightarrow> string \<Rightarrow> nat \<Rightarrow> nat \<Rightarrow> nat \<Rightarrow> nat \<Rightarrow> bool \<times> nat" where
  "waitForUrl_loop net url timeoutMs intervalMs startTime now =
     (if now - startTime < timeoutMs
      then (if reachable (snd (net url now)) then (True, now + fst (net url now))
            else waitForUrl_loop net url timeoutMs intervalMs startTime
                   (now + fst (net url now) + max 1 intervalMs))
      else (False, now))"
  by pat_completeness auto
termination
  by (relation "measure (\<lambda>(net, url, timeoutMs, intervalMs, startTime, now). startTime + timeoutMs - now)")
    auto

declare waitForUrl_loop.simps [simp del]

definition waitForUrl :: "network \<Rightarrow> string \<Rightarrow> nat \<Rightarrow> nat \<Rightarrow> nat \<Rightarrow> bool \<times> nat" where
  "waitForUrl net url timeoutMs intervalMs startTime =
     waitForUrl_loop net url timeoutMs intervalMs startTime startTime"

text \<open>The instants of the successive attempts, were none of them to succeed.\<close>

fun attempt_time :: "network \<Rightarrow> string \<Rightarrow> nat \<Rightarrow> nat \<Rightarrow> nat \<Rightarrow> nat" where
  "attempt_time net url intervalMs startTime 0 = startTime"
| "attempt_time net url intervalMs startTime (Suc k) =
     (let t = attempt_time net url intervalMs startTime k
      in t + fst (net url t) + max 1 intervalMs)"

section \<open>The pattern for test counts\<close>

text \<open>
  \<^verbatim>\<open>/(\d+) passed.*?(\d+) failed.*?(\d+) skipped/i\<close> is a sequence of three kinds of
  items: a captured greedy run of digits, a literal compared without case, and a lazy
  run of characters other than line terminators. \<open>rx_match\<close> is the backtracking
  matcher of JavaScript on such a sequence, from a fixed start: a greedy item tries
  the longest run first, a lazy one the shortest. \<open>rx_search\<close> tries the starts from
  left to right, as \<^verbatim>\<open>String.prototype.match\<close> does. Characters are 8-bit, so the line
  terminators are line feed and carriage return.
\<close>

datatype rx = Digits | Lit string | LazyDots

definition is_digit :: "char \<Rightarrow> bool" where
  "is_digit c = (c \<in> set ''0123456789'')"

definition is_dot :: "char \<Rightarrow> bool" where
  "is_dot c = (c \<noteq> CHR 0x0A \<and> c \<noteq> CHR 0x0D)"

definition to_lower :: "char \<Rightarrow> char" where
  "to_lower c =
     (case map_of (zip ''ABCDEFGHIJKLMNOPQRSTUVWXYZ'' ''abcdefghijklmnopqrstuvwxyz'') c of
        Some l \<Rightarrow> l | None \<Rightarrow> c)"

text \<open>The literals of the pattern are in lower case already.\<close>

definition lit_here :: "string \<Rightarrow> string \<Rightarrow> bool" where
  "lit_here l s = (map to_lower (take (length l) s) = l)"

fun first_some :: "('a \<Rightarrow> 'b option) \<Rightarrow> 'a list \<Rightarrow> 'b option" where
  "first_some f [] = None"
| "first_some f (x # xs) = (case f x of Some y \<Rightarrow> Some y | None \<Rightarrow> first_some f xs)"

fun rx_match :: "rx list \<Rightarrow> string \<Rightarrow> string list \<Rightarrow> string list option" where
  "rx_match [] s caps = Some caps"
| "rx_match (Lit l # r) s caps =
     (if lit_here l s then rx_match r (drop (length l) s) caps else None)"
| "rx_match (Digits # r) s caps =
     first_some (\<lambda>n. rx_match r (drop n s) (caps @ [take n s]))
       (rev [1 ..< Suc (length (takeWhile is_digit s))])"
| "rx_match (LazyDots # r) s caps =
     first_some (\<lambda>n. rx_match r (drop n s) caps) [0 ..< Suc (length (takeWhile is_dot s))]"

definition rx_search :: "rx list \<Rightarrow> string \<Rightarrow> string list option" where
  "rx_search r s = first_some (\<lambda>i. rx_match r (drop i s) []) [0 ..< Suc (length s)]"

definition playwright :: "rx list" where
  "playwright =
     [Digits, Lit '' passed'', LazyDots, Digits, Lit '' failed'', LazyDots, Digits, Lit '' skipped'']"

text \<open>\<^verbatim>\<open>parseInt(s, 10)\<close> on a run of digits.\<close>

definition digit_value :: "char \<Rightarrow> nat" where
  "digit_value c = of_char c - 48"

definition parseInt :: "string \<Rightarrow> nat" where
  "parseInt s = foldl (\<lambda>n c. 10 * n + digit_value c) 0 s"

text \<open>
  What the pattern says, without the matcher: the words a sequence of items stands for,
  with the digit runs they capture; and the phrase the claims speak of, "N passed ... M
  failed ... K skipped" somewhere in the output, the gaps staying on one line.
\<close>

definition digit_run :: "string \<Rightarrow> bool" where
  "digit_run n = (n \<noteq> [] \<and> list_all is_digit n)"

definition same_line :: "string \<Rightarrow> bool" where
  "same_line g = list_all is_dot g"

fun rx_lang :: "rx list \<Rightarrow> string \<Rightarrow> string list \<Rightarrow> bool" where
  "rx_lang [] w cs = (w = [] \<and> cs = [])"
| "rx_lang (Lit l # r) w cs = (\<exists>p w'. w = p @ w' \<and> map to_lower p = l \<and> rx_lang r w' cs)"
| "rx_lang (Digits # r) w cs =
     (\<exists>d w' cs'. w = d @ w' \<and> digit_run d \<and> cs = d # cs' \<and> rx_lang r w' cs')"
| "rx_lang (LazyDots # r) w cs = (\<exists>g w'. w = g @ w' \<and> same_line g \<and> rx_lang r w' cs)"

definition no_digit_ahead :: "string \<Rightarrow> bool" where
  "no_digit_ahead s = (case s of [] \<Rightarrow> True | c # cs \<Rightarrow> \<not> is_digit c)"

definition count_phrase :: "string \<Rightarrow> string \<Rightarrow> string \<Rightarrow> string \<Rightarrow> bool" where
  "count_phrase out n m k =
     (\<exists>pre p g1 f g2 sk post.
        out = pre @ n @ p @ g1 @ m @ f @ g2 @ k @ sk @ post
        \<and> digit_run n \<and> digit_run m \<and> digit_run k
        \<and> map to_lower p = '' passed'' \<and> map to_lower f = '' failed''
        \<and> map to_lower sk = '' skipped''
        \<and> same_line g1 \<and> same_line g2)"

section \<open>The environment and the state of the service\<close>

text \<open>
  The world is what the service cannot decide: what each spawned child does (by the
  number of the spawn, its command and its working directory), what the network
  answers, what \<^verbatim>\<open>Math.random().toString(36).substring(2, 8)\<close> gives at each draw,
  which file system calls fail and with which message, and whether another handler
  of the process calls \<^verbatim>\<open>cancelDeployment()\<close> while \<^verbatim>\<open>deploy\<close> is suspended at its
  \<open>k\<close>-th \<^verbatim>\<open>await\<close>.

  A file holds text. \<^verbatim>\<open>JSON.parse\<close> either rejects it or gives an object, of which the
  model keeps the properties of a \<^verbatim>\<open>DeploymentConfig\<close>, each present or absent;
  \<^verbatim>\<open>JSON.stringify\<close> of a configuration gives the text of that object.
\<close>

datatype fs_op =
  EnsureDir string | WriteFile string | Rename string string | Unlink string | ReadFile string

record StoredConfig =
  version :: "int option"
  autoDeployOnComplete :: "bool option"
  buildSteps :: "DeploymentStep list option"
  deploySteps :: "DeploymentStep list option"
  e2eTests :: "E2ETestConfig option"
  healthCheckUrl :: "string option"
  healthCheckTimeout :: "nat option"

datatype file_content = JsonDocument StoredConfig | NotJson string

record world =
  processes :: "nat \<Rightarrow> string \<Rightarrow> string \<Rightarrow> process"
  network :: network
  random :: "nat \<Rightarrow> string"
  fs_fails :: "fs_op \<Rightarrow> string option"
  cancels :: "nat \<Rightarrow> bool"

record sys =
  currentDeployment :: "DeploymentResult option"
  eventEmitter :: "DeploymentEvent list option"
  clock :: nat
  files :: "string \<Rightarrow> file_content option"
  spawned :: "(string \<times> string \<times> env_vars) list"
  suspensions :: nat
  draws :: nat

text \<open>\<open>eventEmitter\<close> is \<open>None\<close> until \<^verbatim>\<open>setEventEmitter\<close> is called; then it holds, in
  order, the events the emitter was given. \<open>spawned\<close> lists the calls of \<^verbatim>\<open>spawn\<close>.\<close>

definition setEventEmitter :: "sys \<Rightarrow> sys" where
  "setEventEmitter s = s\<lparr>eventEmitter := Some []\<rparr>"

section \<open>The configuration store\<close>

definition getDeploymentConfigPath :: "string \<Rightarrow> string" where
  "getDeploymentConfigPath projectPath = path_join [projectPath, ''.automaker'', ''deployment.json'']"

text \<open>The object a configuration is, as properties present or absent.\<close>

definition to_document :: "DeploymentConfig \<Rightarrow> StoredConfig" where
  "to_document c =
     \<lparr>StoredConfig.version = Some (DeploymentConfig.version c),
      StoredConfig.autoDeployOnComplete = Some (DeploymentConfig.autoDeployOnComplete c),
      StoredConfig.buildSteps = Some (DeploymentConfig.buildSteps c),
      StoredConfig.deploySteps = Some (DeploymentConfig.deploySteps c),
      StoredConfig.e2eTests = DeploymentConfig.e2eTests c,
      StoredConfig.healthCheckUrl = DeploymentConfig.healthCheckUrl c,
      StoredConfig.healthCheckTimeout = DeploymentConfig.healthCheckTimeout c\<rparr>"

fun or_else :: "'a option \<Rightarrow> 'a option \<Rightarrow> 'a option" where
  "or_else (Some x) d = Some x"
| "or_else None d = d"

fun or_default :: "'a option \<Rightarrow> 'a \<Rightarrow> 'a" where
  "or_default (Some x) d = x"
| "or_default None d = d"

text \<open>\<^verbatim>\<open>{ ...DEFAULT_DEPLOYMENT_CONFIG, ...config }\<close>: a property of \<open>config\<close> wins.\<close>

definition spread :: "DeploymentConfig \<Rightarrow> StoredConfig \<Rightarrow> DeploymentConfig" where
  "spread d c =
     \<lparr>DeploymentConfig.version = or_default (StoredConfig.version c) (DeploymentConfig.version d),
      DeploymentConfig.autoDeployOnComplete =
        or_default (StoredConfig.autoDeployOnComplete c) (DeploymentConfig.autoDeployOnComplete d),
      DeploymentConfig.buildSteps =
        or_default (StoredConfig.buildSteps c) (DeploymentConfig.buildSteps d),
      DeploymentConfig.deploySteps =
        or_default (StoredConfig.deploySteps c) (DeploymentConfig.deploySteps d),
      DeploymentConfig.e2eTests = or_else (StoredConfig.e2eTests c) (DeploymentConfig.e2eTests d),
      DeploymentConfig.healthCheckUrl =
        or_else (StoredConfig.healthCheckUrl c) (DeploymentConfig.healthCheckUrl d),
      DeploymentConfig.healthCheckTimeout =
        or_else (StoredConfig.healthCheckTimeout c) (DeploymentConfig.healthCheckTimeout d)\<rparr>"

text \<open>\<^verbatim>\<open>secureFs.unlink\<close> inside \<^verbatim>\<open>try { } catch { }\<close>: a failure is ignored.\<close>

definition unlink_quietly :: "world \<Rightarrow> string \<Rightarrow> sys \<Rightarrow> sys" where
  "unlink_quietly W path s =
     (case fs_fails W (Unlink path) of
        Some msg \<Rightarrow> s
      | None \<Rightarrow> s\<lparr>files := (files s)(path := None)\<rparr>)"

definition atomicWriteJson :: "world \<Rightarrow> string \<Rightarrow> StoredConfig \<Rightarrow> sys \<Rightarrow> (js_error + unit) \<times> sys" where
  "atomicWriteJson W filePath doc s =
     (let tempPath = filePath @ ''.tmp.'' @ show_nat (clock s)
      in case fs_fails W (WriteFile tempPath) of
           Some msg \<Rightarrow> (Inl (Error msg), unlink_quietly W tempPath s)
         | None \<Rightarrow>
             (let s1 = s\<lparr>files := (files s)(tempPath \<mapsto> JsonDocument doc)\<rparr>
              in case fs_fails W (Rename tempPath filePath) of
                   Some msg \<Rightarrow> (Inl (Error msg), unlink_quietly W tempPath s1)
                 | None \<Rightarrow>
                     (Inr (), s1\<lparr>files := ((files s1)(tempPath := None))(filePath := files s1 tempPath)\<rparr>)))"

definition readJsonFile :: "world \<Rightarrow> string \<Rightarrow> StoredConfig \<Rightarrow> sys \<Rightarrow> StoredConfig" where
  "readJsonFile W filePath defaultValue s =
     (case fs_fails W (ReadFile filePath) of
        Some msg \<Rightarrow> defaultValue
      | None \<Rightarrow>
          (case files s filePath of
             None \<Rightarrow> defaultValue
           | Some (NotJson text) \<Rightarrow> defaultValue
           | Some (JsonDocument doc) \<Rightarrow> doc))"

definition getDeploymentConfig :: "world \<Rightarrow> string \<Rightarrow> sys \<Rightarrow> DeploymentConfig" where
  "getDeploymentConfig W projectPath s =
     (let configPath = getDeploymentConfigPath projectPath;
          config = readJsonFile W configPath (to_document DEFAULT_DEPLOYMENT_CONFIG) s
      in spread DEFAULT_DEPLOYMENT_CONFIG config)"

definition saveDeploymentConfig :: "world \<Rightarrow> string \<Rightarrow> DeploymentConfig \<Rightarrow> sys \<Rightarrow> (js_error + unit) \<times> sys" where
  "saveDeploymentConfig W projectPath config s =
     (case fs_fails W (EnsureDir projectPath) of
        Some msg \<Rightarrow> (Inl (Error msg), s)
      | None \<Rightarrow> atomicWriteJson W (getDeploymentConfigPath projectPath) (to_document config) s)"

section \<open>The pipeline orchestrator\<close>

definition no_data :: EventData where
  "no_data =
     \<lparr>EventData.stepName = None, EventData.status = None, EventData.output' = None,
      EventData.error = None, EventData.result = None\<rparr>"

definition emitEvent :: "DeploymentEventType \<Rightarrow> EventData \<Rightarrow> sys \<Rightarrow> sys" where
  "emitEvent ty d s =
     (case eventEmitter s of
        None \<Rightarrow> s
      | Some received \<Rightarrow>
          (case currentDeployment s of
             None \<Rightarrow> s
           | Some cur \<Rightarrow>
               s\<lparr>eventEmitter :=
                   Some (received @
                     [\<lparr>type = ty, deploymentId = DeploymentResult.id cur, timestamp = clock s,
                       data = Some d\<rparr>])\<rparr>))"

definition getCurrentDeployment :: "sys \<Rightarrow> DeploymentResult option" where
  "getCurrentDeployment s = currentDeployment s"

definition isDeploymentRunning :: "sys \<Rightarrow> bool" where
  "isDeploymentRunning s =
     (case currentDeployment s of
        None \<Rightarrow> False
      | Some cur \<Rightarrow> DeploymentResult.status cur \<notin> set [Success, Failed, Idle])"

text \<open>An assignment to a property of \<^verbatim>\<open>this.currentDeployment\<close>. The slot is never
  reset to \<^verbatim>\<open>null\<close>, and every assignment of the source comes after one that fills it.\<close>

definition update_current :: "(DeploymentResult \<Rightarrow> DeploymentResult) \<Rightarrow> sys \<Rightarrow> sys" where
  "update_current f s = s\<lparr>currentDeployment := map_option f (currentDeployment s)\<rparr>"

definition cancelDeployment :: "sys \<Rightarrow> sys" where
  "cancelDeployment s =
     (if currentDeployment s \<noteq> None \<and> isDeploymentRunning s
      then emitEvent DeploymentFailed
             (no_data\<lparr>EventData.status := Some ''failed'', EventData.error := Some ''Cancelled by user''\<rparr>)
             (update_current
                (\<lambda>d. d\<lparr>DeploymentResult.status := Failed, finishedAt := Some (clock s),
                        DeploymentResult.error := Some ''Deployment cancelled by user''\<rparr>) s)
      else s)"

text \<open>An \<^verbatim>\<open>await\<close> of \<^verbatim>\<open>deploy\<close>: the event loop runs other handlers, of which the model
  follows the calls of \<^verbatim>\<open>cancelDeployment()\<close>, taken to run as soon as \<^verbatim>\<open>deploy\<close> yields.\<close>

definition suspend :: "world \<Rightarrow> sys \<Rightarrow> sys" where
  "suspend W s =
     (let s1 = s\<lparr>suspensions := Suc (suspensions s)\<rparr>
      in if cancels W (suspensions s) then cancelDeployment s1 else s1)"

text \<open>\<^verbatim>\<open>await executeCommand(...)\<close> and \<^verbatim>\<open>await waitForUrl(url, timeoutMs)\<close> (the interval
  is the default of the parameter, 2000) on the state.\<close>

definition await_executeCommand ::
  "world \<Rightarrow> string \<Rightarrow> string \<Rightarrow> env_vars \<Rightarrow> nat \<Rightarrow> sys \<Rightarrow> exec_result \<times> sys" where
  "await_executeCommand W cmd workDir vars timeoutMs s =
     (let r = executeCommand timeoutMs (processes W (length (spawned s)) cmd workDir);
          s1 = suspend W (s\<lparr>spawned := spawned s @ [(cmd, workDir, vars)]\<rparr>)
      in (fst r, s1\<lparr>clock := clock s1 + fst (snd r)\<rparr>))"

definition await_waitForUrl :: "world \<Rightarrow> string \<Rightarrow> nat \<Rightarrow> sys \<Rightarrow> bool \<times> sys" where
  "await_waitForUrl W url timeoutMs s =
     (let r = waitForUrl (network W) url timeoutMs 2000 (clock s);
          s1 = suspend W s
      in (fst r, s1\<lparr>clock := snd r\<rparr>))"

datatype step_type = Build | Deploy

fun step_started :: "step_type \<Rightarrow> DeploymentEventType" where
  "step_started Build = BuildStepStarted"
| "step_started Deploy = DeployStepStarted"

fun step_completed :: "step_type \<Rightarrow> DeploymentEventType" where
  "step_completed Build = BuildStepCompleted"
| "step_completed Deploy = DeployStepCompleted"

fun step_status_string :: "StepStatus \<Rightarrow> string" where
  "step_status_string StepSuccess = ''success''"
| "step_status_string StepFailed = ''failed''"
| "step_status_string StepSkipped = ''skipped''"

fun work_dir :: "string \<Rightarrow> string option \<Rightarrow> string" where
  "work_dir projectPath None = projectPath"
| "work_dir projectPath (Some d) = (if d \<noteq> [] then path_join [projectPath, d] else projectPath)"

definition executeStep :: "world \<Rightarrow> DeploymentStep \<Rightarrow> string \<Rightarrow> step_type \<Rightarrow> sys \<Rightarrow> StepResult \<times> sys" where
  "executeStep W step projectPath stepType s =
     (let startTime = clock s;
          workDir = work_dir projectPath (DeploymentStep.workingDirectory step);
          s1 = emitEvent (step_started stepType)
                 (no_data\<lparr>EventData.stepName := Some (name step), EventData.status := Some ''running''\<rparr>) s;
          (r, s2) = await_executeCommand W (DeploymentStep.command step) workDir
                      (env_or_empty (DeploymentStep.env step))
                      (number_or (DeploymentStep.timeout step) 300000) s1;
          stepResult =
            \<lparr>StepResult.stepName = name step,
             StepResult.status = (if success r then StepSuccess else StepFailed),
             StepResult.output' = exec_result.output' r,
             StepResult.error = exec_result.error r,
             StepResult.durationMs = clock s2 - startTime\<rparr>;
          s3 = emitEvent (step_completed stepType)
                 (no_data\<lparr>EventData.stepName := Some (name step),
                    EventData.status := Some (step_status_string (StepResult.status stepResult)),
                    EventData.output' := Some (StepResult.output' stepResult),
                    EventData.error := StepResult.error stepResult,
                    EventData.result := Some (OfStep stepResult)\<rparr>) s2
      in (stepResult, s3))"

fun push_result :: "step_type \<Rightarrow> StepResult \<Rightarrow> DeploymentResult \<Rightarrow> DeploymentResult" where
  "push_result Build r d = d\<lparr>buildResults := buildResults d @ [r]\<rparr>"
| "push_result Deploy r d = d\<lparr>deployResults := deployResults d @ [r]\<rparr>"

fun step_failed_message :: "step_type \<Rightarrow> string \<Rightarrow> string" where
  "step_failed_message Build n = ''Build step failed: '' @ n"
| "step_failed_message Deploy n = ''Deploy step failed: '' @ n"

text \<open>The two \<^verbatim>\<open>for (const step of ...)\<close> loops of \<^verbatim>\<open>deploy\<close>. \<open>Inl\<close> is a \<^verbatim>\<open>throw\<close>.\<close>

fun run_steps ::
  "world \<Rightarrow> step_type \<Rightarrow> string \<Rightarrow> DeploymentStep list \<Rightarrow> sys \<Rightarrow> (js_error + unit) \<times> sys" where
  "run_steps W stepType projectPath [] s = (Inr (), s)"
| "run_steps W stepType projectPath (step # steps) s =
     (let (r, s1) = executeStep W step projectPath stepType s;
          s2 = update_current (push_result stepType r) s1
      in if StepResult.status r = StepFailed \<and> \<not> truthy_bool (continueOnError step)
         then (Inl (Error (step_failed_message stepType (name step))), s2)
         else run_steps W stepType projectPath steps s2)"

fun e2e_status_string :: "E2EStatus \<Rightarrow> string" where
  "e2e_status_string E2EPassed = ''passed''"
| "e2e_status_string E2EFailed = ''failed''"
| "e2e_status_string E2ESkipped = ''skipped''"

text \<open>The three counts, from what \<^verbatim>\<open>output.match(...)\<close> returns.\<close>

fun counts_of :: "string list option \<Rightarrow> nat option \<times> nat option \<times> nat option" where
  "counts_of (Some [a, b, c]) = (Some (parseInt a), Some (parseInt b), Some (parseInt c))"
| "counts_of m = (None, None, None)"

definition e2e_report :: "exec_result \<Rightarrow> nat \<Rightarrow> E2ETestResult" where
  "e2e_report r duration =
     (let playwrightMatch = rx_search playwright (exec_result.output' r);
          (p, f, k) = counts_of playwrightMatch
      in \<lparr>E2ETestResult.status = (if success r then E2EPassed else E2EFailed),
          E2ETestResult.output' = exec_result.output' r,
          E2ETestResult.error = exec_result.error r,
          E2ETestResult.durationMs = duration,
          passed = p, failed = f, skipped = k\<rparr>)"

definition e2e_command :: "world \<Rightarrow> string \<Rightarrow> E2ETestConfig \<Rightarrow> nat \<Rightarrow> sys \<Rightarrow> E2ETestResult \<times> sys" where
  "e2e_command W projectPath e2eConfig startTime s =
     (let workDir = work_dir projectPath (E2ETestConfig.workingDirectory e2eConfig);
          (r, s1) = await_executeCommand W (E2ETestConfig.command e2eConfig) workDir
                      (env_or_empty (E2ETestConfig.env e2eConfig))
                      (number_or (E2ETestConfig.timeout e2eConfig) 600000) s
      in (e2e_report r (clock s1 - startTime), s1))"

definition runE2ETests :: "world \<Rightarrow> string \<Rightarrow> DeploymentConfig \<Rightarrow> sys \<Rightarrow> E2ETestResult \<times> sys" where
  "runE2ETests W projectPath config s =
     (case DeploymentConfig.e2eTests config of
        None \<Rightarrow>
          (\<lparr>E2ETestResult.status = E2ESkipped, E2ETestResult.output' = ''No E2E tests configured'',
            E2ETestResult.error = None, E2ETestResult.durationMs = 0,
            passed = None, failed = None, skipped = None\<rparr>, s)
      | Some e2eConfig \<Rightarrow>
          (let startTime = clock s
           in case E2ETestConfig.waitForUrl e2eConfig of
                None \<Rightarrow> e2e_command W projectPath e2eConfig startTime s
              | Some url \<Rightarrow>
                  (if url = [] then e2e_command W projectPath e2eConfig startTime s
                   else (let (urlAvailable, s1) =
                               await_waitForUrl W url (number_or (waitTimeout e2eConfig) 60000) s
                         in if \<not> urlAvailable
                            then (\<lparr>E2ETestResult.status = E2EFailed,
                                   E2ETestResult.output' = ''Target URL not available: '' @ url,
                                   E2ETestResult.error = Some ''Target URL timeout'',
                                   E2ETestResult.durationMs = clock s1 - startTime,
                                   passed = None, failed = None, skipped = None\<rparr>, s1)
                            else e2e_command W projectPath e2eConfig startTime s1))))"

text \<open>Sequencing inside the \<^verbatim>\<open>try\<close> block: a \<^verbatim>\<open>throw\<close> skips what follows.\<close>

definition and_then ::
  "(js_error + unit) \<times> sys \<Rightarrow> (sys \<Rightarrow> (js_error + unit) \<times> sys) \<Rightarrow> (js_error + unit) \<times> sys" where
  "and_then r f = (case fst r of Inl e \<Rightarrow> r | Inr u \<Rightarrow> f (snd r))"

definition build_phase :: "world \<Rightarrow> string \<Rightarrow> DeploymentConfig \<Rightarrow> sys \<Rightarrow> (js_error + unit) \<times> sys" where
  "build_phase W projectPath config s =
     run_steps W Build projectPath (DeploymentConfig.buildSteps config) s"

definition deploy_phase :: "world \<Rightarrow> string \<Rightarrow> DeploymentConfig \<Rightarrow> sys \<Rightarrow> (js_error + unit) \<times> sys" where
  "deploy_phase W projectPath config s =
     (let s1 = update_current (\<lambda>d. d\<lparr>DeploymentResult.status := Deploying\<rparr>) s;
          s2 = emitEvent DeploymentStarted (no_data\<lparr>EventData.status := Some ''deploying''\<rparr>) s1
      in run_steps W Deploy projectPath (DeploymentConfig.deploySteps config) s2)"

definition health_phase :: "world \<Rightarrow> DeploymentConfig \<Rightarrow> sys \<Rightarrow> (js_error + unit) \<times> sys" where
  "health_phase W config s =
     (case DeploymentConfig.healthCheckUrl config of
        None \<Rightarrow> (Inr (), s)
      | Some url \<Rightarrow>
          (if url = [] then (Inr (), s)
           else (let s1 = update_current (\<lambda>d. d\<lparr>DeploymentResult.status := WaitingForHealth\<rparr>) s;
                     s2 = emitEvent HealthCheckStarted (no_data\<lparr>EventData.status := Some ''waiting''\<rparr>) s1;
                     (healthOk, s3) =
                       await_waitForUrl W url
                         (number_or (DeploymentConfig.healthCheckTimeout config) 30000) s2;
                     s4 = emitEvent HealthCheckCompleted
                            (no_data\<lparr>EventData.status := Some (if healthOk then ''success'' else ''failed'')\<rparr>) s3
                 in if \<not> healthOk
                    then (Inl (Error (''Health check failed: '' @ url @ '' not available'')), s4)
                    else (Inr (), s4))))"

definition e2e_phase :: "world \<Rightarrow> string \<Rightarrow> DeploymentConfig \<Rightarrow> sys \<Rightarrow> (js_error + unit) \<times> sys" where
  "e2e_phase W projectPath config s =
     (case DeploymentConfig.e2eTests config of
        None \<Rightarrow> (Inr (), s)
      | Some e2eConfig \<Rightarrow>
          (let s1 = update_current (\<lambda>d. d\<lparr>DeploymentResult.status := RunningTests\<rparr>) s;
               s2 = emitEvent E2EStarted (no_data\<lparr>EventData.status := Some ''running''\<rparr>) s1;
               (e2eResult, s3) = runE2ETests W projectPath config s2;
               s4 = update_current (\<lambda>d. d\<lparr>e2eResult := Some e2eResult\<rparr>) s3;
               s5 = emitEvent E2ECompleted
                      (no_data\<lparr>EventData.status := Some (e2e_status_string (E2ETestResult.status e2eResult)),
                         EventData.result := Some (OfE2E e2eResult)\<rparr>) s4
           in if E2ETestResult.status e2eResult = E2EFailed
              then (Inl (Error ''E2E tests failed''), s5)
              else (Inr (), s5)))"

definition on_success :: "sys \<Rightarrow> (js_error + unit) \<times> sys" where
  "on_success s =
     (let s1 = update_current
                 (\<lambda>d. d\<lparr>DeploymentResult.status := Success, finishedAt := Some (clock s)\<rparr>) s
      in (Inr (),
          emitEvent DeploymentCompleted
            (no_data\<lparr>EventData.status := Some ''success'',
               EventData.result := map_option OfDeployment (currentDeployment s1)\<rparr>) s1))"

text \<open>The body of the \<^verbatim>\<open>try\<close> block.\<close>

definition deploy_try :: "world \<Rightarrow> string \<Rightarrow> DeploymentConfig \<Rightarrow> sys \<Rightarrow> (js_error + unit) \<times> sys" where
  "deploy_try W projectPath config s =
     and_then (and_then (and_then (and_then
       (build_phase W projectPath config s)
       (deploy_phase W projectPath config))
       (health_phase W config))
       (e2e_phase W projectPath config))
       on_success"

text \<open>The \<^verbatim>\<open>catch (error)\<close> block.\<close>

definition deploy_catch :: "js_error \<Rightarrow> sys \<Rightarrow> sys" where
  "deploy_catch e s =
     (case e of Error message \<Rightarrow>
        (let s1 = update_current
                    (\<lambda>d. d\<lparr>DeploymentResult.status := Failed, finishedAt := Some (clock s),
                            DeploymentResult.error := Some message\<rparr>) s
         in emitEvent DeploymentFailed
              (no_data\<lparr>EventData.status := Some ''failed'', EventData.error := Some message,
                 EventData.result := map_option OfDeployment (currentDeployment s1)\<rparr>) s1))"

definition generateDeploymentId :: "world \<Rightarrow> sys \<Rightarrow> string" where
  "generateDeploymentId W s = ''deploy_'' @ to_radix 36 (clock s) @ ''_'' @ random W (draws s)"

text \<open>The statements of \<^verbatim>\<open>deploy\<close> between the guard and the \<^verbatim>\<open>try\<close> block: the
  \<^verbatim>\<open>await\<close> of the configuration, the new identifier, the new current result and the
  first event.\<close>

definition deploy_begin :: "world \<Rightarrow> Trigger \<Rightarrow> string list option \<Rightarrow> sys \<Rightarrow> sys" where
  "deploy_begin W trg fids s =
     (let s0 = suspend W s;
          deploymentId = generateDeploymentId W s0;
          s1 = s0\<lparr>draws := Suc (draws s0),
                 currentDeployment :=
                   Some \<lparr>DeploymentResult.id = deploymentId, startedAt = clock s0, finishedAt = None,
                         DeploymentResult.status = Building, buildResults = [], deployResults = [],
                         e2eResult = None, DeploymentResult.error = None, trigger = trg,
                         featureIds = fids\<rparr>\<rparr>
      in emitEvent DeploymentStarted (no_data\<lparr>EventData.status := Some ''building''\<rparr>) s1)"

text \<open>\<^verbatim>\<open>deploy\<close>. The first component is how the promise it returns settles: \<open>Inl\<close>
  rejected with an error, \<open>Inr\<close> fulfilled with \<^verbatim>\<open>this.currentDeployment\<close>.\<close>

definition deploy ::
  "world \<Rightarrow> string \<Rightarrow> Trigger \<Rightarrow> string list option \<Rightarrow> sys \<Rightarrow> (js_error + DeploymentResult) \<times> sys" where
  "deploy W projectPath trg fids s =
     (if isDeploymentRunning s then (Inl (Error ''A deployment is already in progress''), s)
      else
        (let config = getDeploymentConfig W projectPath s;
             s2 = deploy_begin W trg fids s;
             (r, s3) = deploy_try W projectPath config s2;
             s4 = (case r of Inl e \<Rightarrow> deploy_catch e s3 | Inr u \<Rightarrow> s3)
         in case currentDeployment s4 of
              Some d \<Rightarrow> (Inr d, s4)
            | None \<Rightarrow> (Inl (Error ''Cannot read properties of null''), s4)))"

section \<open>What a run is expected to do\<close>

text \<open>
  The claims speak of the result of a step, of a step whose failure ends the run, and of
  the events of a run. A step that is the \<open>k\<close>-th command the service spawns has the
  result \<open>step_result\<close>; it is fatal when that result is a failure and the step does not
  set \<^verbatim>\<open>continueOnError\<close>. The events of a run are those the emitter received between
  two states.
\<close>

definition step_settlement :: "world \<Rightarrow> string \<Rightarrow> nat \<Rightarrow> DeploymentStep \<Rightarrow> settlement" where
  "step_settlement W projectPath k step =
     executeCommand (number_or (DeploymentStep.timeout step) 300000)
       (processes W k (DeploymentStep.command step)
          (work_dir projectPath (DeploymentStep.workingDirectory step)))"

definition step_result :: "world \<Rightarrow> string \<Rightarrow> nat \<Rightarrow> DeploymentStep \<Rightarrow> StepResult" where
  "step_result W projectPath k step =
     \<lparr>StepResult.stepName = name step,
      StepResult.status =
        (if success (fst (step_settlement W projectPath k step)) then StepSuccess else StepFailed),
      StepResult.output' = exec_result.output' (fst (step_settlement W projectPath k step)),
      StepResult.error = exec_result.error (fst (step_settlement W projectPath k step)),
      StepResult.durationMs = fst (snd (step_settlement W projectPath k step))\<rparr>"

definition fatal :: "world \<Rightarrow> string \<Rightarrow> nat \<Rightarrow> DeploymentStep \<Rightarrow> bool" where
  "fatal W projectPath k step =
     (StepResult.status (step_result W projectPath k step) = StepFailed
      \<and> \<not> truthy_bool (continueOnError step))"

fun step_results :: "world \<Rightarrow> string \<Rightarrow> nat \<Rightarrow> DeploymentStep list \<Rightarrow> StepResult list" where
  "step_results W projectPath k [] = []"
| "step_results W projectPath k (step # steps) =
     step_result W projectPath k step # step_results W projectPath (Suc k) steps"

fun no_fatal :: "world \<Rightarrow> string \<Rightarrow> nat \<Rightarrow> DeploymentStep list \<Rightarrow> bool" where
  "no_fatal W projectPath k [] = True"
| "no_fatal W projectPath k (step # steps) =
     (\<not> fatal W projectPath k step \<and> no_fatal W projectPath (Suc k) steps)"

definition spawn_entry :: "string \<Rightarrow> DeploymentStep \<Rightarrow> string \<times> string \<times> env_vars" where
  "spawn_entry projectPath step =
     (DeploymentStep.command step, work_dir projectPath (DeploymentStep.workingDirectory step),
      env_or_empty (DeploymentStep.env step))"

fun results_of :: "step_type \<Rightarrow> DeploymentResult \<Rightarrow> StepResult list" where
  "results_of Build d = buildResults d"
| "results_of Deploy d = deployResults d"

text \<open>The state after one round of the loop over the steps.\<close>

definition after_step :: "world \<Rightarrow> step_type \<Rightarrow> string \<Rightarrow> DeploymentStep \<Rightarrow> sys \<Rightarrow> sys" where
  "after_step W stepType projectPath step s =
     update_current (push_result stepType (fst (executeStep W step projectPath stepType s)))
       (snd (executeStep W step projectPath stepType s))"

definition received :: "sys \<Rightarrow> DeploymentEvent list" where
  "received s = (case eventEmitter s of None \<Rightarrow> [] | Some es \<Rightarrow> es)"

definition emitted :: "sys \<Rightarrow> sys \<Rightarrow> DeploymentEvent list" where
  "emitted s s' = drop (length (received s)) (received s')"

definition terminal :: "DeploymentEvent \<Rightarrow> bool" where
  "terminal e = (type e = DeploymentCompleted \<or> type e = DeploymentFailed)"

definition event_status :: "DeploymentEvent \<Rightarrow> string option" where
  "event_status e = (case data e of None \<Rightarrow> None | Some d \<Rightarrow> EventData.status d)"

definition event_error :: "DeploymentEvent \<Rightarrow> string option" where
  "event_error e = (case data e of None \<Rightarrow> None | Some d \<Rightarrow> EventData.error d)"

text \<open>What happens between two states of a run: the emitter, if there is one, receives
  further events, each of a type in \<open>T\<close> or the \<^verbatim>\<open>deployment_failed\<close> of a cancellation,
  and each with the identifier of the current result, which stays the same.\<close>

definition progress :: "world \<Rightarrow> DeploymentEventType set \<Rightarrow> sys \<Rightarrow> sys \<Rightarrow> bool" where
  "progress W T s s' =
     ((\<exists>es. eventEmitter s' = map_option (\<lambda>l. l @ es) (eventEmitter s)
          \<and> (\<forall>e \<in> set es.
                (type e \<in> T \<or> (type e = DeploymentFailed \<and> (\<exists>k. cancels W k)))
                \<and> Some (deploymentId e) = map_option DeploymentResult.id (currentDeployment s)))
      \<and> map_option DeploymentResult.id (currentDeployment s')
          = map_option DeploymentResult.id (currentDeployment s))"

text \<open>The phases before the success branch, and those after the build phase.\<close>

definition phases :: "world \<Rightarrow> string \<Rightarrow> DeploymentConfig \<Rightarrow> sys \<Rightarrow> (js_error + unit) \<times> sys" where
  "phases W projectPath config s =
     and_then (and_then (and_then
       (build_phase W projectPath config s)
       (deploy_phase W projectPath config))
       (health_phase W config))
       (e2e_phase W projectPath config)"

definition later_phases :: "world \<Rightarrow> string \<Rightarrow> DeploymentConfig \<Rightarrow> sys \<Rightarrow> (js_error + unit) \<times> sys" where
  "later_phases W projectPath config s =
     and_then (and_then (and_then
       (run_steps W Deploy projectPath (DeploymentConfig.deploySteps config) s)
       (health_phase W config))
       (e2e_phase W projectPath config))
       on_success"

section \<open>Example environments\<close>

text \<open>A world in which every command prints a line and exits with code 0 after ten
  milliseconds, every URL answers 200, no file system call fails and nobody cancels;
  and a service that has an event emitter and has not deployed yet.\<close>

definition calm_world :: world where
  "calm_world =
     \<lparr>processes = (\<lambda>k cmd dir. [(5, StdoutData ''done''), (10, Close (Some 0))]),
      network = (\<lambda>url t. (5, Response 200)),
      random = (\<lambda>k. ''k3x9qa''),
      fs_fails = (\<lambda>op. None),
      cancels = (\<lambda>k. False)\<rparr>"

definition new_service :: sys where
  "new_service =
     \<lparr>currentDeployment = None, eventEmitter = Some [], clock = 1000, files = (\<lambda>path. None),
      spawned = [], suspensions = 0, draws = 0\<rparr>"

definition building :: DeploymentResult where
  "building =
     \<lparr>DeploymentResult.id = ''deploy_a_b'', startedAt = 900, finishedAt = None,
      DeploymentResult.status = Building, buildResults = [], deployResults = [],
      e2eResult = None, DeploymentResult.error = None, trigger = Manual, featureIds = None\<rparr>"

text \<open>A project with a saved configuration, steps without options, a world in which
  three commands fail, and a world in which \<^verbatim>\<open>cancelDeployment()\<close> is called while the
  first command runs.\<close>

definition service_with :: "DeploymentConfig \<Rightarrow> sys" where
  "service_with c =
     new_service\<lparr>files := (\<lambda>path. if path = ''/srv/app/.automaker/deployment.json''
                                   then Some (JsonDocument (to_document c)) else None)\<rparr>"

definition plain_step :: "string \<Rightarrow> string \<Rightarrow> DeploymentStep" where
  "plain_step n c =
     \<lparr>name = n, DeploymentStep.command = c, DeploymentStep.workingDirectory = None,
      DeploymentStep.env = None, DeploymentStep.timeout = None, continueOnError = None\<rparr>"

definition rough_world :: world where
  "rough_world =
     calm_world\<lparr>processes := (\<lambda>k cmd dir.
        if cmd = ''npm run lint'' \<or> cmd = ''npm test'' \<or> cmd = ''./migrate.sh''
        then [(3, StderrData ''failed''), (8, Close (Some 1))]
        else [(5, StdoutData ''done''), (10, Close (Some 0))])\<rparr>"

definition cancelling_world :: world where
  "cancelling_world = calm_world\<lparr>cancels := (\<lambda>k. k = 1)\<rparr>"

definition build_fails :: DeploymentConfig where
  "build_fails =
     DEFAULT_DEPLOYMENT_CONFIG
       \<lparr>DeploymentConfig.buildSteps :=
          [plain_step ''install'' ''npm ci'',
           (plain_step ''lint'' ''npm run lint'')\<lparr>continueOnError := Some True\<rparr>,
           plain_step ''test'' ''npm test'',
           plain_step ''bundle'' ''npm run build''],
        DeploymentConfig.deploySteps := [plain_step ''push'' ''./push.sh'']\<rparr>"

definition deploy_fails :: DeploymentConfig where
  "deploy_fails =
     DEFAULT_DEPLOYMENT_CONFIG
       \<lparr>DeploymentConfig.buildSteps :=
          [plain_step ''install'' ''npm ci'',
           (plain_step ''lint'' ''npm run lint'')\<lparr>continueOnError := Some True\<rparr>],
        DeploymentConfig.deploySteps :=
          [plain_step ''push'' ''./push.sh'',
           plain_step ''migrate'' ''./migrate.sh'',
           plain_step ''restart'' ''./restart.sh'']\<rparr>"

definition one_step :: DeploymentConfig where
  "one_step =
     DEFAULT_DEPLOYMENT_CONFIG\<lparr>DeploymentConfig.buildSteps := [plain_step ''build'' ''make'']\<rparr>"

text \<open>A project whose end-to-end tests print a summary line and exit with code 1.\<close>

definition e2e_project :: DeploymentConfig where
  "e2e_project =
     DEFAULT_DEPLOYMENT_CONFIG
       \<lparr>DeploymentConfig.e2eTests :=
          Some \<lparr>E2ETestConfig.command = ''npx playwright test'',
                E2ETestConfig.workingDirectory = None, E2ETestConfig.waitForUrl = None,
                waitTimeout = None, E2ETestConfig.env = None, E2ETestConfig.timeout = None\<rparr>\<rparr>"

definition playwright_world :: world where
  "playwright_world =
     calm_world\<lparr>processes := (\<lambda>k cmd dir.
        [(900, StdoutData ''Running tests: 12 passed, 3 failed, 1 skipped (slow)''),
         (950, Close (Some 1))])\<rparr>"

definition retry_world :: world where
  "retry_world =
     calm_world\<lparr>processes := (\<lambda>k cmd dir.
        [(900, StdoutData ''retried: 2 passed; total: 12 passed, 3 failed, 1 skipped''),
         (950, Close (Some 1))])\<rparr>"

section \<open>Properties of the step executor\<close>

lemma executeCommand_loop_close:
  "\<forall>(d, e) \<in> set pre. d < timeoutMs \<and> \<not> ends_child e \<Longrightarrow> at < timeoutMs \<Longrightarrow>
   executeCommand_loop timeoutMs out err (pre @ (at, Close code) # rest)
     = on_close code at (out @ stdout_of pre) (err @ stderr_of pre)"
proof (induction pre arbitrary: out err)
  case Nil
  then show ?case by simp
next
  case (Cons x pre)
  obtain d e where x: "x = (d, e)" by (cases x)
  with Cons.prems have d: "d < timeoutMs" and e: "\<not> ends_child e" by auto
  have rest: "\<forall>(d, e) \<in> set pre. d < timeoutMs \<and> \<not> ends_child e" using Cons.prems by auto
  show ?case using d e x Cons.IH[OF rest Cons.prems(2)]
    by (cases e) simp_all
qed

lemma executeCommand_loop_error:
  "\<forall>(d, e) \<in> set pre. d < timeoutMs \<and> \<not> ends_child e \<Longrightarrow> at < timeoutMs \<Longrightarrow>
   executeCommand_loop timeoutMs out err (pre @ (at, SpawnError msg) # rest)
     = on_error msg at (out @ stdout_of pre)"
proof (induction pre arbitrary: out err)
  case Nil
  then show ?case by simp
next
  case (Cons x pre)
  obtain d e where x: "x = (d, e)" by (cases x)
  with Cons.prems have d: "d < timeoutMs" and e: "\<not> ends_child e" by auto
  have rest: "\<forall>(d, e) \<in> set pre. d < timeoutMs \<and> \<not> ends_child e" using Cons.prems by auto
  show ?case using d e x Cons.IH[OF rest Cons.prems(2)]
    by (cases e) simp_all
qed

lemma executeCommand_loop_timeout:
  "\<forall>(d, e) \<in> set p. d < timeoutMs \<longrightarrow> \<not> ends_child e \<Longrightarrow>
   executeCommand_loop timeoutMs out err p
     = on_timeout timeoutMs (out @ stdout_of (takeWhile (\<lambda>(d, e). d < timeoutMs) p))"
proof (induction p arbitrary: out err)
  case Nil
  then show ?case by simp
next
  case (Cons x p)
  obtain d e where x: "x = (d, e)" by (cases x)
  have rest: "\<forall>(d, e) \<in> set p. d < timeoutMs \<longrightarrow> \<not> ends_child e" using Cons.prems by auto
  show ?case
  proof (cases "d < timeoutMs")
    case True
    with Cons.prems x have "\<not> ends_child e" by auto
    then show ?thesis using True x Cons.IH[OF rest] by (cases e) simp_all
  next
    case False
    then show ?thesis using x by simp
  qed
qed

lemma executeCommand_loop_settles:
  "fst (snd (executeCommand_loop timeoutMs out err p)) \<le> timeoutMs"
proof (induction p arbitrary: out err)
  case Nil
  show ?case by (simp add: on_timeout_def)
next
  case (Cons x p)
  obtain at e where x: "x = (at, e)" by (cases x)
  show ?case unfolding x using Cons.IH
    by (cases e) (simp_all add: on_timeout_def on_close_def on_error_def)
qed






section \<open>Properties of the health probe\<close>

lemma attempt_time_shift:
  "attempt_time net url i now (Suc k) = attempt_time net url i (now + fst (net url now) + max 1 i) k"
  by (induction k) (simp_all add: Let_def)

lemma attempt_time_ge: "now \<le> attempt_time net url i now k"
  by (induction k) (simp_all add: Let_def le_SucI trans_le_add1)

lemma waitForUrl_loop_iff:
  "fst (waitForUrl_loop net url timeoutMs intervalMs startTime now) \<longleftrightarrow>
     (\<exists>k. attempt_time net url intervalMs now k - startTime < timeoutMs
          \<and> reachable (snd (net url (attempt_time net url intervalMs now k))))"
proof (induction net url timeoutMs intervalMs startTime now rule: waitForUrl_loop.induct)
  case (1 net url timeoutMs intervalMs startTime now)
  let ?next = "now + fst (net url now) + max 1 intervalMs"
  let ?P = "\<lambda>from k. attempt_time net url intervalMs from k - startTime < timeoutMs
          \<and> reachable (snd (net url (attempt_time net url intervalMs from k)))"
  show ?case
  proof (cases "now - startTime < timeoutMs")
    case False
    have "\<not> ?P now k" for k
      using False attempt_time_ge[of now net url intervalMs k] by auto
    then show ?thesis using False by (subst waitForUrl_loop.simps) simp
  next
    case True
    show ?thesis
    proof (cases "reachable (snd (net url now))")
      case r: True
      have "?P now 0" using True r by simp
      then have "\<exists>k. ?P now k" by blast
      then show ?thesis using True r by (subst waitForUrl_loop.simps) simp
    next
      case r: False
      have step: "fst (waitForUrl_loop net url timeoutMs intervalMs startTime now)
                  = fst (waitForUrl_loop net url timeoutMs intervalMs startTime ?next)"
        using True r by (subst waitForUrl_loop.simps) simp
      have "(\<exists>k. ?P now k) \<longleftrightarrow> (\<exists>k. ?P ?next k)"
      proof
        assume "\<exists>k. ?P now k"
        then obtain k where k: "?P now k" by blast
        with r have "k \<noteq> 0" by (cases k) auto
        then obtain j where "k = Suc j" by (cases k) auto
        with k have "?P ?next j" by (simp only: attempt_time_shift)
        then show "\<exists>k. ?P ?next k" by blast
      next
        assume "\<exists>k. ?P ?next k"
        then obtain j where "?P ?next j" by blast
        then have "?P now (Suc j)" by (simp only: attempt_time_shift)
        then show "\<exists>k. ?P now k" by blast
      qed
      with step "1.IH"[OF True r] show ?thesis by simp
    qed
  qed
qed

text \<open>
  Claim C8. \<^verbatim>\<open>waitForUrl\<close> returns (the model is a total function, in which a connection
  error is an outcome of an attempt like any other) and its value is \<open>True\<close> exactly when
  one of its attempts, issued before the deadline \<open>startTime + timeoutMs\<close>, is answered
  with a status below 500; otherwise it is \<open>False\<close>. The attempts are those of
  \<open>attempt_time\<close>: each one follows the answer to the one before after a sleep of
  \<open>intervalMs\<close>.
\<close>

theorem waitForUrl_true_iff:
  "fst (waitForUrl net url timeoutMs intervalMs startTime) \<longleftrightarrow>
     (\<exists>k. attempt_time net url intervalMs startTime k < startTime + timeoutMs
          \<and> (\<exists>st. snd (net url (attempt_time net url intervalMs startTime k)) = Response st \<and> st < 500))"
proof -
  have a: "attempt_time net url intervalMs startTime k - startTime < timeoutMs
           \<longleftrightarrow> attempt_time net url intervalMs startTime k < startTime + timeoutMs" for k
    using attempt_time_ge[of startTime net url intervalMs k] by auto
  have b: "reachable x \<longleftrightarrow> (\<exists>st. x = Response st \<and> st < 500)" for x
    by (cases x) auto
  show ?thesis
    unfolding waitForUrl_def waitForUrl_loop_iff a b ..
qed

theorem waitForUrl_true_iff_witness:
  "fst (waitForUrl (\<lambda>url t. (10, if t < 5000 then ConnectionError else Response 404)) ''http://localhost:3000'' 30000 2000 100)"
proof -
  let ?net = "\<lambda>(url::string) (t::nat). (10::nat, if t < 5000 then ConnectionError else Response 404)"
  have "attempt_time ?net ''http://localhost:3000'' 2000 100 3 < 100 + 30000
     \<and> (\<exists>st. snd (?net ''http://localhost:3000'' (attempt_time ?net ''http://localhost:3000'' 2000 100 3)) = Response st \<and> st < 500)"
    by (simp add: numeral_3_eq_3 Let_def)
  then show ?thesis
    using waitForUrl_true_iff[of ?net "''http://localhost:3000''" 30000 2000 100] by blast
qed

section \<open>Properties of the configuration store\<close>

lemma spread_to_document: "spread DEFAULT_DEPLOYMENT_CONFIG (to_document c) = c"
  by (cases "DeploymentConfig.e2eTests c"; cases "DeploymentConfig.healthCheckUrl c";
      cases "DeploymentConfig.healthCheckTimeout c")
    (simp_all add: spread_def to_document_def DEFAULT_DEPLOYMENT_CONFIG_def)

text \<open>
  Claim C5. When \<^verbatim>\<open>saveDeploymentConfig(projectPath, cfg)\<close> returns and the file can be
  read, \<^verbatim>\<open>getDeploymentConfig(projectPath)\<close> gives the defaults overridden by the
  properties of \<open>cfg\<close>, which is \<open>cfg\<close> itself; the step lists may be empty.
\<close>

theorem config_round_trip:
  assumes "fst (saveDeploymentConfig W projectPath cfg s) = Inr ()"
    and "fs_fails W (ReadFile (getDeploymentConfigPath projectPath)) = None"
  shows "getDeploymentConfig W projectPath (snd (saveDeploymentConfig W projectPath cfg s))
           = spread DEFAULT_DEPLOYMENT_CONFIG (to_document cfg)
         \<and> spread DEFAULT_DEPLOYMENT_CONFIG (to_document cfg) = cfg"
  using assms
  by (auto simp: saveDeploymentConfig_def atomicWriteJson_def getDeploymentConfig_def
      readJsonFile_def spread_to_document Let_def split: option.splits)

theorem config_round_trip_witness:
  "getDeploymentConfig calm_world ''/srv/app''
     (snd (saveDeploymentConfig calm_world ''/srv/app''
        (DEFAULT_DEPLOYMENT_CONFIG\<lparr>DeploymentConfig.autoDeployOnComplete := True\<rparr>) new_service))
   = DEFAULT_DEPLOYMENT_CONFIG\<lparr>DeploymentConfig.autoDeployOnComplete := True\<rparr>"
proof -
  have a: "fst (saveDeploymentConfig calm_world ''/srv/app''
        (DEFAULT_DEPLOYMENT_CONFIG\<lparr>DeploymentConfig.autoDeployOnComplete := True\<rparr>) new_service) = Inr ()"
    by (simp add: saveDeploymentConfig_def atomicWriteJson_def calm_world_def Let_def)
  have b: "fs_fails calm_world (ReadFile (getDeploymentConfigPath ''/srv/app'')) = None"
    by (simp add: calm_world_def)
  show ?thesis using config_round_trip[OF a b] by simp
qed

section \<open>Properties of the orchestrator\<close>

text \<open>
  Claim C1. A call of \<^verbatim>\<open>deploy\<close> while \<^verbatim>\<open>isDeploymentRunning()\<close> is true is rejected with
  the error \<open>A deployment is already in progress\<close>, and it leaves the whole state as it
  was: what \<^verbatim>\<open>getCurrentDeployment()\<close> returns is unchanged and the emitter has received
  nothing.
\<close>

theorem deploy_while_running_rejected:
  assumes "isDeploymentRunning s"
  shows "deploy W projectPath trg fids s = (Inl (Error ''A deployment is already in progress''), s)
         \<and> getCurrentDeployment (snd (deploy W projectPath trg fids s)) = getCurrentDeployment s
         \<and> eventEmitter (snd (deploy W projectPath trg fids s)) = eventEmitter s"
  using assms by (simp add: deploy_def)

theorem deploy_while_running_rejected_witness:
  "isDeploymentRunning (new_service\<lparr>currentDeployment := Some building\<rparr>)
   \<and> deploy calm_world ''/srv/app'' Manual None (new_service\<lparr>currentDeployment := Some building\<rparr>)
       = (Inl (Error ''A deployment is already in progress''), new_service\<lparr>currentDeployment := Some building\<rparr>)"
proof -
  have r: "isDeploymentRunning (new_service\<lparr>currentDeployment := Some building\<rparr>)"
    by (simp add: isDeploymentRunning_def building_def)
  show ?thesis using r deploy_while_running_rejected[OF r] by simp
qed

subsection \<open>What each operation leaves unchanged\<close>

lemma emitEvent_fields [simp]:
  "currentDeployment (emitEvent ty d s) = currentDeployment s"
  "spawned (emitEvent ty d s) = spawned s"
  "clock (emitEvent ty d s) = clock s"
  "suspensions (emitEvent ty d s) = suspensions s"
  "draws (emitEvent ty d s) = draws s"
  "files (emitEvent ty d s) = files s"
  by (simp_all add: emitEvent_def split: option.splits)

lemma eventEmitter_emitEvent:
  "eventEmitter (emitEvent ty d s) =
     (case currentDeployment s of
        None \<Rightarrow> eventEmitter s
      | Some cur \<Rightarrow>
          map_option (\<lambda>l. l @ [\<lparr>type = ty, deploymentId = DeploymentResult.id cur,
                                 timestamp = clock s, data = Some d\<rparr>]) (eventEmitter s))"
  by (simp add: emitEvent_def split: option.splits)

lemma update_current_fields [simp]:
  "currentDeployment (update_current f s) = map_option f (currentDeployment s)"
  "eventEmitter (update_current f s) = eventEmitter s"
  "spawned (update_current f s) = spawned s"
  "clock (update_current f s) = clock s"
  "suspensions (update_current f s) = suspensions s"
  "draws (update_current f s) = draws s"
  "files (update_current f s) = files s"
  by (simp_all add: update_current_def)

lemma cancelDeployment_fields [simp]:
  "spawned (cancelDeployment s) = spawned s"
  "clock (cancelDeployment s) = clock s"
  "suspensions (cancelDeployment s) = suspensions s"
  "draws (cancelDeployment s) = draws s"
  "files (cancelDeployment s) = files s"
  by (simp_all add: cancelDeployment_def)

lemma cancelDeployment_current [simp]:
  "map_option DeploymentResult.id (currentDeployment (cancelDeployment s))
     = map_option DeploymentResult.id (currentDeployment s)"
  "map_option buildResults (currentDeployment (cancelDeployment s))
     = map_option buildResults (currentDeployment s)"
  "map_option deployResults (currentDeployment (cancelDeployment s))
     = map_option deployResults (currentDeployment s)"
  by (simp_all add: cancelDeployment_def option.map_comp comp_def)

lemma suspend_fields [simp]:
  "spawned (suspend W s) = spawned s"
  "clock (suspend W s) = clock s"
  "draws (suspend W s) = draws s"
  "files (suspend W s) = files s"
  "suspensions (suspend W s) = Suc (suspensions s)"
  "map_option DeploymentResult.id (currentDeployment (suspend W s))
     = map_option DeploymentResult.id (currentDeployment s)"
  "map_option buildResults (currentDeployment (suspend W s))
     = map_option buildResults (currentDeployment s)"
  "map_option deployResults (currentDeployment (suspend W s))
     = map_option deployResults (currentDeployment s)"
  by (simp_all add: suspend_def Let_def)

lemma suspend_no_cancel: "\<not> cancels W (suspensions s) \<Longrightarrow> suspend W s = s\<lparr>suspensions := Suc (suspensions s)\<rparr>"
  by (simp add: suspend_def Let_def)

subsection \<open>Progress\<close>

lemma progress_refl: "progress W T s s"
  unfolding progress_def by (rule conjI, rule exI[of _ "[]"]) (simp_all add: option.map_ident)

lemma progress_trans:
  assumes "progress W T s s'" and "progress W T s' s''"
  shows "progress W T s s''"
proof -
  from assms(1) obtain es where
    es: "eventEmitter s' = map_option (\<lambda>l. l @ es) (eventEmitter s)"
        "\<forall>e \<in> set es. (type e \<in> T \<or> (type e = DeploymentFailed \<and> (\<exists>k. cancels W k)))
            \<and> Some (deploymentId e) = map_option DeploymentResult.id (currentDeployment s)"
    and i: "map_option DeploymentResult.id (currentDeployment s')
          = map_option DeploymentResult.id (currentDeployment s)"
    unfolding progress_def by blast
  from assms(2) obtain fs where
    fs: "eventEmitter s'' = map_option (\<lambda>l. l @ fs) (eventEmitter s')"
        "\<forall>e \<in> set fs. (type e \<in> T \<or> (type e = DeploymentFailed \<and> (\<exists>k. cancels W k)))
            \<and> Some (deploymentId e) = map_option DeploymentResult.id (currentDeployment s')"
    and j: "map_option DeploymentResult.id (currentDeployment s'')
          = map_option DeploymentResult.id (currentDeployment s')"
    unfolding progress_def by blast
  have "eventEmitter s'' = map_option (\<lambda>l. l @ (es @ fs)) (eventEmitter s)"
    using es(1) fs(1) by (simp add: option.map_comp comp_def)
  moreover have "\<forall>e \<in> set (es @ fs). (type e \<in> T \<or> (type e = DeploymentFailed \<and> (\<exists>k. cancels W k)))
            \<and> Some (deploymentId e) = map_option DeploymentResult.id (currentDeployment s)"
    using es(2) fs(2) i by auto
  ultimately show ?thesis unfolding progress_def using i j by metis
qed

lemma progress_mono: "progress W T s s' \<Longrightarrow> T \<subseteq> T' \<Longrightarrow> progress W T' s s'"
  unfolding progress_def by blast

lemma progress_same:
  "eventEmitter s' = eventEmitter s \<Longrightarrow>
   map_option DeploymentResult.id (currentDeployment s') = map_option DeploymentResult.id (currentDeployment s) \<Longrightarrow>
   progress W T s s'"
  unfolding progress_def by (rule conjI, rule exI[of _ "[]"]) (simp_all add: option.map_ident)

lemma progress_emitEvent: "ty \<in> T \<Longrightarrow> progress W T s (emitEvent ty d s)"
  unfolding progress_def
proof (cases "currentDeployment s")
  case None
  assume "ty \<in> T"
  show "(\<exists>es. eventEmitter (emitEvent ty d s) = map_option (\<lambda>l. l @ es) (eventEmitter s) \<and>
          (\<forall>e\<in>set es. (type e \<in> T \<or> type e = DeploymentFailed \<and> (\<exists>k. cancels W k)) \<and>
              Some (deploymentId e) = map_option DeploymentResult.id (currentDeployment s))) \<and>
    map_option DeploymentResult.id (currentDeployment (emitEvent ty d s)) =
    map_option DeploymentResult.id (currentDeployment s)"
    using None by (intro conjI exI[of _ "[]"]) (simp_all add: eventEmitter_emitEvent option.map_ident)
next
  case (Some cur)
  assume "ty \<in> T"
  then show "(\<exists>es. eventEmitter (emitEvent ty d s) = map_option (\<lambda>l. l @ es) (eventEmitter s) \<and>
          (\<forall>e\<in>set es. (type e \<in> T \<or> type e = DeploymentFailed \<and> (\<exists>k. cancels W k)) \<and>
              Some (deploymentId e) = map_option DeploymentResult.id (currentDeployment s))) \<and>
    map_option DeploymentResult.id (currentDeployment (emitEvent ty d s)) =
    map_option DeploymentResult.id (currentDeployment s)"
    using Some
    by (intro conjI exI[of _ "[\<lparr>type = ty, deploymentId = DeploymentResult.id cur,
                                 timestamp = clock s, data = Some d\<rparr>]"])
      (simp_all add: eventEmitter_emitEvent)
qed

lemma progress_update_current:
  "(\<And>d. DeploymentResult.id (f d) = DeploymentResult.id d) \<Longrightarrow> progress W T s (update_current f s)"
  by (rule progress_same) (simp_all add: option.map_comp comp_def)

lemma progress_cancelDeployment:
  assumes "\<exists>k. cancels W k"
  shows "progress W T s (cancelDeployment s)"
proof (cases "currentDeployment s \<noteq> None \<and> isDeploymentRunning s")
  case False
  then have "cancelDeployment s = s" by (auto simp add: cancelDeployment_def)
  then show ?thesis by (simp add: progress_refl)
next
  case True
  let ?f = "\<lambda>d. d\<lparr>DeploymentResult.status := Failed, finishedAt := Some (clock s),
                        DeploymentResult.error := Some ''Deployment cancelled by user''\<rparr>"
  let ?d = "no_data\<lparr>EventData.status := Some ''failed'', EventData.error := Some ''Cancelled by user''\<rparr>"
  have c: "cancelDeployment s = emitEvent DeploymentFailed ?d (update_current ?f s)"
    using True by (simp add: cancelDeployment_def)
  have 1: "progress W (insert DeploymentFailed T) s (update_current ?f s)"
    by (rule progress_update_current) simp
  have 2: "progress W (insert DeploymentFailed T) (update_current ?f s)
             (emitEvent DeploymentFailed ?d (update_current ?f s))"
    by (rule progress_emitEvent) simp
  have "progress W (insert DeploymentFailed T) s (cancelDeployment s)"
    using progress_trans[OF 1 2] c by simp
  then show ?thesis using assms unfolding progress_def by blast
qed

lemma progress_suspend: "progress W T s (suspend W s)"
proof (cases "cancels W (suspensions s)")
  case False
  then show ?thesis by (simp add: suspend_no_cancel progress_same)
next
  case True
  then have e: "\<exists>k. cancels W k" by blast
  have 1: "progress W T s (s\<lparr>suspensions := Suc (suspensions s)\<rparr>)"
    by (rule progress_same) simp_all
  have 2: "progress W T (s\<lparr>suspensions := Suc (suspensions s)\<rparr>)
             (cancelDeployment (s\<lparr>suspensions := Suc (suspensions s)\<rparr>))"
    by (rule progress_cancelDeployment[OF e])
  show ?thesis using progress_trans[OF 1 2] True by (simp add: suspend_def Let_def)
qed


lemma progress_set_clock: "progress W T s s' \<Longrightarrow> progress W T s (s'\<lparr>clock := c\<rparr>)"
  unfolding progress_def by simp

lemma progress_await_executeCommand:
  "progress W T s (snd (await_executeCommand W cmd dir vars timeoutMs s))"
proof -
  have 1: "progress W T s (s\<lparr>spawned := spawned s @ [(cmd, dir, vars)]\<rparr>)"
    by (rule progress_same) simp_all
  have 2: "progress W T s (suspend W (s\<lparr>spawned := spawned s @ [(cmd, dir, vars)]\<rparr>))"
    by (rule progress_trans[OF 1 progress_suspend])
  show ?thesis
    by (simp add: await_executeCommand_def Let_def progress_set_clock[OF 2])
qed

lemma progress_await_waitForUrl:
  "progress W T s (snd (await_waitForUrl W url timeoutMs s))"
  by (simp add: await_waitForUrl_def Let_def progress_set_clock[OF progress_suspend])

lemma progress_executeStep:
  assumes "step_started ty \<in> T" and "step_completed ty \<in> T"
  shows "progress W T s (snd (executeStep W step projectPath ty s))"
proof -
  let ?s1 = "emitEvent (step_started ty)
                 (no_data\<lparr>EventData.stepName := Some (name step), EventData.status := Some ''running''\<rparr>) s"
  obtain r s2 where a: "await_executeCommand W (DeploymentStep.command step)
                      (work_dir projectPath (DeploymentStep.workingDirectory step))
                      (env_or_empty (DeploymentStep.env step))
                      (number_or (DeploymentStep.timeout step) 300000) ?s1 = (r, s2)"
    by (cases "await_executeCommand W (DeploymentStep.command step)
                      (work_dir projectPath (DeploymentStep.workingDirectory step))
                      (env_or_empty (DeploymentStep.env step))
                      (number_or (DeploymentStep.timeout step) 300000) ?s1")
  have 1: "progress W T s ?s1" by (rule progress_emitEvent[OF assms(1)])
  have 2: "progress W T ?s1 s2"
    using progress_await_executeCommand[of W T ?s1] a by (metis snd_conv)
  have 3: "progress W T s2 (emitEvent (step_completed ty) d s2)" for d
    by (rule progress_emitEvent[OF assms(2)])
  show ?thesis
    using progress_trans[OF progress_trans[OF 1 2] 3] a
    by (simp add: executeStep_def Let_def)
qed

lemma executeStep_result:
  "fst (executeStep W step projectPath ty s) = step_result W projectPath (length (spawned s)) step"
  by (simp add: executeStep_def await_executeCommand_def Let_def step_result_def
      step_settlement_def split: prod.splits)

lemma executeStep_spawned:
  "spawned (snd (executeStep W step projectPath ty s)) = spawned s @ [spawn_entry projectPath step]"
  by (simp add: executeStep_def await_executeCommand_def Let_def spawn_entry_def split: prod.splits)

lemma executeStep_results:
  "map_option buildResults (currentDeployment (snd (executeStep W step projectPath ty s)))
     = map_option buildResults (currentDeployment s)"
  "map_option deployResults (currentDeployment (snd (executeStep W step projectPath ty s)))
     = map_option deployResults (currentDeployment s)"
  by (simp_all add: executeStep_def await_executeCommand_def Let_def split: prod.splits)

lemma run_steps_Cons:
  "run_steps W ty projectPath (step # steps) s =
     (if fatal W projectPath (length (spawned s)) step
      then (Inl (Error (step_failed_message ty (name step))), after_step W ty projectPath step s)
      else run_steps W ty projectPath steps (after_step W ty projectPath step s))"
proof -
  obtain r s1 where e: "executeStep W step projectPath ty s = (r, s1)"
    by (cases "executeStep W step projectPath ty s")
  then have r: "r = step_result W projectPath (length (spawned s)) step"
    using executeStep_result[of W step projectPath ty s] by simp
  show ?thesis using e by (simp add: after_step_def fatal_def Let_def r)
qed

declare run_steps.simps(2) [simp del]

lemma after_step_spawned:
  "spawned (after_step W ty projectPath step s) = spawned s @ [spawn_entry projectPath step]"
  by (simp add: after_step_def executeStep_spawned)

lemma after_step_results:
  "map_option (results_of ty) (currentDeployment (after_step W ty projectPath step s))
     = map_option (\<lambda>rs. rs @ [step_result W projectPath (length (spawned s)) step])
         (map_option (results_of ty) (currentDeployment s))"
proof (cases ty)
  case Build
  show ?thesis
    using executeStep_results(1)[of W step projectPath ty s]
    by (cases "currentDeployment (snd (executeStep W step projectPath ty s))";
        cases "currentDeployment s")
      (auto simp: after_step_def executeStep_result Build)
next
  case Deploy
  show ?thesis
    using executeStep_results(2)[of W step projectPath ty s]
    by (cases "currentDeployment (snd (executeStep W step projectPath ty s))";
        cases "currentDeployment s")
      (auto simp: after_step_def executeStep_result Deploy)
qed

lemma after_step_other_results:
  "ty' \<noteq> ty \<Longrightarrow>
   map_option (results_of ty') (currentDeployment (after_step W ty projectPath step s))
     = map_option (results_of ty') (currentDeployment s)"
  using executeStep_results[of W step projectPath ty s]
  by (cases ty; cases ty';
      cases "currentDeployment (snd (executeStep W step projectPath ty s))";
      cases "currentDeployment s")
    (auto simp: after_step_def)

lemma progress_after_step:
  assumes "step_started ty \<in> T" and "step_completed ty \<in> T"
  shows "progress W T s (after_step W ty projectPath step s)"
proof -
  have "DeploymentResult.id (push_result ty r d) = DeploymentResult.id d" for r d
    by (cases ty) simp_all
  then have "progress W T (snd (executeStep W step projectPath ty s))
               (after_step W ty projectPath step s)"
    unfolding after_step_def by (rule progress_update_current)
  with progress_executeStep[OF assms] show ?thesis by (rule progress_trans)
qed

lemma progress_run_steps:
  assumes "step_started ty \<in> T" and "step_completed ty \<in> T"
  shows "progress W T s (snd (run_steps W ty projectPath steps s))"
proof (induction steps arbitrary: s)
  case Nil
  show ?case by (simp add: progress_refl)
next
  case (Cons step steps)
  show ?case
    using progress_after_step[OF assms, of W s projectPath step]
      progress_trans[OF progress_after_step[OF assms, of W s projectPath step] Cons.IH]
    by (simp add: run_steps_Cons)
qed

lemma run_steps_abort:
  assumes "no_fatal W projectPath (length (spawned s)) pre"
    and "fatal W projectPath (length (spawned s) + length pre) step"
  shows "fst (run_steps W ty projectPath (pre @ step # post) s)
           = Inl (Error (step_failed_message ty (name step)))
       \<and> spawned (snd (run_steps W ty projectPath (pre @ step # post) s))
           = spawned s @ map (spawn_entry projectPath) (pre @ [step])
       \<and> map_option (results_of ty) (currentDeployment (snd (run_steps W ty projectPath (pre @ step # post) s)))
           = map_option (\<lambda>rs. rs @ step_results W projectPath (length (spawned s)) (pre @ [step]))
               (map_option (results_of ty) (currentDeployment s))"
  using assms
proof (induction pre arbitrary: s)
  case Nil
  then show ?case
    by (simp add: run_steps_Cons after_step_spawned after_step_results)
next
  case (Cons x pre)
  let ?s = "after_step W ty projectPath x s"
  have n: "length (spawned ?s) = Suc (length (spawned s))" by (simp add: after_step_spawned)
  have 1: "no_fatal W projectPath (length (spawned ?s)) pre" using Cons.prems(1) n by simp
  have 2: "fatal W projectPath (length (spawned ?s) + length pre) step"
    using Cons.prems(2) n by simp
  have x: "\<not> fatal W projectPath (length (spawned s)) x" using Cons.prems(1) by simp
  show ?case
    using Cons.IH[OF 1 2] x n
    by (simp add: run_steps_Cons after_step_spawned after_step_results option.map_comp comp_def)
qed

lemma run_steps_complete:
  assumes "no_fatal W projectPath (length (spawned s)) steps"
  shows "fst (run_steps W ty projectPath steps s) = Inr ()
       \<and> spawned (snd (run_steps W ty projectPath steps s))
           = spawned s @ map (spawn_entry projectPath) steps
       \<and> map_option (results_of ty) (currentDeployment (snd (run_steps W ty projectPath steps s)))
           = map_option (\<lambda>rs. rs @ step_results W projectPath (length (spawned s)) steps)
               (map_option (results_of ty) (currentDeployment s))"
  using assms
proof (induction steps arbitrary: s)
  case Nil
  then show ?case by (simp add: option.map_comp comp_def option.map_ident)
next
  case (Cons x steps)
  let ?s = "after_step W ty projectPath x s"
  have n: "length (spawned ?s) = Suc (length (spawned s))" by (simp add: after_step_spawned)
  have 1: "no_fatal W projectPath (length (spawned ?s)) steps" using Cons.prems n by simp
  have x: "\<not> fatal W projectPath (length (spawned s)) x" using Cons.prems by simp
  show ?case
    using Cons.IH[OF 1] x n
    by (simp add: run_steps_Cons after_step_spawned after_step_results option.map_comp comp_def)
qed

lemma run_steps_other_results:
  "ty' \<noteq> ty \<Longrightarrow>
   map_option (results_of ty') (currentDeployment (snd (run_steps W ty projectPath steps s)))
     = map_option (results_of ty') (currentDeployment s)"
proof (induction steps arbitrary: s)
  case Nil
  then show ?case by simp
next
  case (Cons x steps)
  then show ?case by (simp add: run_steps_Cons after_step_other_results)
qed

lemma and_then_Inl: "fst r = Inl e \<Longrightarrow> and_then r f = r"
  by (simp add: and_then_def)

lemma and_then_Inr: "fst r = Inr u \<Longrightarrow> and_then r f = f (snd r)"
  by (simp add: and_then_def)

lemma progress_and_then:
  assumes "progress W T s (snd r)" and "\<And>s'. progress W T s' (snd (f s'))"
  shows "progress W T s (snd (and_then r f))"
proof (cases "fst r")
  case (Inl e)
  then show ?thesis using assms(1) by (simp add: and_then_Inl)
next
  case (Inr u)
  then show ?thesis using progress_trans[OF assms(1) assms(2)[of "snd r"]] by (simp add: and_then_Inr)
qed

lemma progress_build_phase:
  "BuildStepStarted \<in> T \<Longrightarrow> BuildStepCompleted \<in> T \<Longrightarrow>
   progress W T s (snd (build_phase W projectPath config s))"
  unfolding build_phase_def by (rule progress_run_steps) simp_all

lemma progress_deploy_phase:
  assumes "DeploymentStarted \<in> T" and "DeployStepStarted \<in> T" and "DeployStepCompleted \<in> T"
  shows "progress W T s (snd (deploy_phase W projectPath config s))"
proof -
  let ?s1 = "update_current (\<lambda>d. d\<lparr>DeploymentResult.status := Deploying\<rparr>) s"
  let ?s2 = "emitEvent DeploymentStarted (no_data\<lparr>EventData.status := Some ''deploying''\<rparr>) ?s1"
  have 1: "progress W T s ?s1" by (rule progress_update_current) simp
  have 2: "progress W T ?s1 ?s2" by (rule progress_emitEvent[OF assms(1)])
  have 3: "progress W T ?s2 (snd (run_steps W Deploy projectPath (DeploymentConfig.deploySteps config) ?s2))"
    by (rule progress_run_steps) (simp_all add: assms)
  show ?thesis
    using progress_trans[OF progress_trans[OF 1 2] 3] by (simp add: deploy_phase_def Let_def)
qed

lemma progress_health_phase:
  assumes "HealthCheckStarted \<in> T" and "HealthCheckCompleted \<in> T"
  shows "progress W T s (snd (health_phase W config s))"
proof (cases "truthy_string (DeploymentConfig.healthCheckUrl config)")
  case False
  then show ?thesis
    by (cases "DeploymentConfig.healthCheckUrl config") (simp_all add: health_phase_def progress_refl)
next
  case True
  then obtain url where u: "DeploymentConfig.healthCheckUrl config = Some url" "url \<noteq> []"
    by (cases "DeploymentConfig.healthCheckUrl config") auto
  let ?s1 = "update_current (\<lambda>d. d\<lparr>DeploymentResult.status := WaitingForHealth\<rparr>) s"
  let ?s2 = "emitEvent HealthCheckStarted (no_data\<lparr>EventData.status := Some ''waiting''\<rparr>) ?s1"
  let ?w = "await_waitForUrl W url (number_or (DeploymentConfig.healthCheckTimeout config) 30000) ?s2"
  have 1: "progress W T s ?s1" by (rule progress_update_current) simp
  have 2: "progress W T ?s1 ?s2" by (rule progress_emitEvent[OF assms(1)])
  have 3: "progress W T ?s2 (snd ?w)" by (rule progress_await_waitForUrl)
  have 4: "progress W T (snd ?w) (emitEvent HealthCheckCompleted d (snd ?w))" for d
    by (rule progress_emitEvent[OF assms(2)])
  have "progress W T s (emitEvent HealthCheckCompleted d (snd ?w))" for d
    using progress_trans[OF progress_trans[OF progress_trans[OF 1 2] 3] 4] .
  then show ?thesis
    using u by (simp add: health_phase_def Let_def case_prod_beta)
qed

lemma progress_e2e_command:
  "progress W T s (snd (e2e_command W projectPath e2eConfig startTime s))"
  by (simp add: e2e_command_def Let_def case_prod_beta progress_await_executeCommand)

lemma progress_runE2ETests: "progress W T s (snd (runE2ETests W projectPath config s))"
proof (cases "DeploymentConfig.e2eTests config")
  case None
  then show ?thesis by (simp add: runE2ETests_def progress_refl)
next
  case (Some e2eConfig)
  show ?thesis
  proof (cases "truthy_string (E2ETestConfig.waitForUrl e2eConfig)")
    case False
    then show ?thesis using Some
      by (cases "E2ETestConfig.waitForUrl e2eConfig")
        (simp_all add: runE2ETests_def Let_def progress_e2e_command)
  next
    case True
    then obtain url where u: "E2ETestConfig.waitForUrl e2eConfig = Some url" "url \<noteq> []"
      by (cases "E2ETestConfig.waitForUrl e2eConfig") auto
    let ?w = "await_waitForUrl W url (number_or (waitTimeout e2eConfig) 60000) s"
    have 1: "progress W T s (snd ?w)" by (rule progress_await_waitForUrl)
    have 2: "progress W T s (snd (e2e_command W projectPath e2eConfig (clock s) (snd ?w)))"
      by (rule progress_trans[OF 1 progress_e2e_command])
    show ?thesis using Some u 1 2
      by (simp add: runE2ETests_def Let_def case_prod_beta)
  qed
qed

lemma progress_e2e_phase:
  assumes "E2EStarted \<in> T" and "E2ECompleted \<in> T"
  shows "progress W T s (snd (e2e_phase W projectPath config s))"
proof (cases "DeploymentConfig.e2eTests config")
  case None
  then show ?thesis by (simp add: e2e_phase_def progress_refl)
next
  case (Some e2eConfig)
  let ?s1 = "update_current (\<lambda>d. d\<lparr>DeploymentResult.status := RunningTests\<rparr>) s"
  let ?s2 = "emitEvent E2EStarted (no_data\<lparr>EventData.status := Some ''running''\<rparr>) ?s1"
  let ?r = "runE2ETests W projectPath config ?s2"
  let ?s4 = "update_current (\<lambda>d. d\<lparr>e2eResult := Some (fst ?r)\<rparr>) (snd ?r)"
  have 1: "progress W T s ?s1" by (rule progress_update_current) simp
  have 2: "progress W T ?s1 ?s2" by (rule progress_emitEvent[OF assms(1)])
  have 3: "progress W T ?s2 (snd ?r)" by (rule progress_runE2ETests)
  have 4: "progress W T (snd ?r) ?s4" by (rule progress_update_current) simp
  have 5: "progress W T ?s4 (emitEvent E2ECompleted d ?s4)" for d
    by (rule progress_emitEvent[OF assms(2)])
  have "progress W T s (emitEvent E2ECompleted d ?s4)" for d
    using progress_trans[OF progress_trans[OF progress_trans[OF progress_trans[OF 1 2] 3] 4] 5] .
  then show ?thesis
    using Some by (simp add: e2e_phase_def Let_def case_prod_beta)
qed

lemma progress_on_success:
  assumes "DeploymentCompleted \<in> T"
  shows "progress W T s (snd (on_success s))"
proof -
  let ?s1 = "update_current (\<lambda>d. d\<lparr>DeploymentResult.status := Success, finishedAt := Some (clock s)\<rparr>) s"
  have 1: "progress W T s ?s1" by (rule progress_update_current) simp
  have 2: "progress W T ?s1 (emitEvent DeploymentCompleted d ?s1)" for d
    by (rule progress_emitEvent[OF assms])
  show ?thesis using progress_trans[OF 1 2] by (simp add: on_success_def Let_def)
qed

lemma progress_deploy_catch:
  assumes "DeploymentFailed \<in> T"
  shows "progress W T s (deploy_catch e s)"
proof (cases e)
  case (Error message)
  let ?s1 = "update_current (\<lambda>d. d\<lparr>DeploymentResult.status := Failed, finishedAt := Some (clock s),
                            DeploymentResult.error := Some message\<rparr>) s"
  have 1: "progress W T s ?s1" by (rule progress_update_current) simp
  have 2: "progress W T ?s1 (emitEvent DeploymentFailed d ?s1)" for d
    by (rule progress_emitEvent[OF assms])
  show ?thesis using progress_trans[OF 1 2] Error by (simp add: deploy_catch_def Let_def)
qed

text \<open>The four phases before the success branch.\<close>

lemma deploy_try_phases:
  "deploy_try W projectPath config s =
     and_then (and_then (and_then (and_then
       (build_phase W projectPath config s)
       (deploy_phase W projectPath config))
       (health_phase W config))
       (e2e_phase W projectPath config))
       on_success"
  by (simp add: deploy_try_def)

lemma progress_deploy_try: "progress W UNIV s (snd (deploy_try W projectPath config s))"
  unfolding deploy_try_def
  by (intro progress_and_then progress_build_phase progress_deploy_phase progress_health_phase
      progress_e2e_phase progress_on_success) simp_all

lemma progress_current:
  "progress W T s s' \<Longrightarrow> currentDeployment s = Some d \<Longrightarrow>
   \<exists>d'. currentDeployment s' = Some d' \<and> DeploymentResult.id d' = DeploymentResult.id d"
  unfolding progress_def by (cases "currentDeployment s'") auto

lemma progress_emitter:
  "progress W T s s' \<Longrightarrow> eventEmitter s = Some l \<Longrightarrow> \<exists>es. eventEmitter s' = Some (l @ es)"
  unfolding progress_def by auto

lemma isDeploymentRunning_suspensions [simp]:
  "isDeploymentRunning (s\<lparr>suspensions := n\<rparr>) = isDeploymentRunning s"
  by (simp add: isDeploymentRunning_def)

lemma suspend_not_running:
  "\<not> isDeploymentRunning s \<Longrightarrow> suspend W s = s\<lparr>suspensions := Suc (suspensions s)\<rparr>"
  by (simp add: suspend_def Let_def cancelDeployment_def)

lemma deploy_begin_spawned [simp]: "spawned (deploy_begin W trg fids s) = spawned s"
  by (simp add: deploy_begin_def Let_def)

lemma deploy_begin_current:
  "\<exists>d. currentDeployment (deploy_begin W trg fids s) = Some d
       \<and> buildResults d = [] \<and> deployResults d = []
       \<and> DeploymentResult.id d = generateDeploymentId W (suspend W s)"
  by (simp add: deploy_begin_def Let_def)

lemma deploy_begin_emitter:
  assumes "\<not> isDeploymentRunning s"
  shows "eventEmitter (deploy_begin W trg fids s) =
           map_option (\<lambda>l. l @ [\<lparr>type = DeploymentStarted,
                                  deploymentId = generateDeploymentId W (suspend W s),
                                  timestamp = clock s,
                                  data = Some (no_data\<lparr>EventData.status := Some ''building''\<rparr>)\<rparr>])
             (eventEmitter s)"
  using assms
  by (simp add: deploy_begin_def Let_def eventEmitter_emitEvent suspend_not_running)

lemma deploy_catch_fields [simp]:
  "spawned (deploy_catch e s) = spawned s"
  "clock (deploy_catch e s) = clock s"
  by (cases e; simp add: deploy_catch_def Let_def)+

lemma deploy_catch_current:
  "currentDeployment (deploy_catch (Error message) s) =
     map_option (\<lambda>d. d\<lparr>DeploymentResult.status := Failed, finishedAt := Some (clock s),
                         DeploymentResult.error := Some message\<rparr>) (currentDeployment s)"
  by (simp add: deploy_catch_def Let_def)

lemma deploy_catch_emitter:
  "currentDeployment s = Some d \<Longrightarrow>
   \<exists>e. eventEmitter (deploy_catch (Error message) s) = map_option (\<lambda>l. l @ [e]) (eventEmitter s)
      \<and> type e = DeploymentFailed \<and> deploymentId e = DeploymentResult.id d
      \<and> event_error e = Some message \<and> event_status e = Some ''failed''"
  by (rule exI[of _ "\<lparr>type = DeploymentFailed, deploymentId = DeploymentResult.id d,
         timestamp = clock s,
         data = Some (no_data\<lparr>EventData.status := Some ''failed'', EventData.error := Some message,
                 EventData.result := Some (OfDeployment
                   (d\<lparr>DeploymentResult.status := Failed, finishedAt := Some (clock s),
                            DeploymentResult.error := Some message\<rparr>))\<rparr>)\<rparr>"])
    (simp add: deploy_catch_def Let_def eventEmitter_emitEvent event_error_def event_status_def
      no_data_def)

text \<open>How \<open>deploy\<close> ends, from how its \<open>try\<close> block ends.\<close>

lemma deploy_unfold:
  assumes "\<not> isDeploymentRunning s"
    and "deploy_try W projectPath (getDeploymentConfig W projectPath s) (deploy_begin W trg fids s) = (r, s3)"
    and "currentDeployment s3 = Some d3"
  shows "r = Inr () \<Longrightarrow> deploy W projectPath trg fids s = (Inr d3, s3)"
    and "r = Inl (Error message) \<Longrightarrow>
         deploy W projectPath trg fids s =
           (Inr (d3\<lparr>DeploymentResult.status := Failed, finishedAt := Some (clock s3),
                         DeploymentResult.error := Some message\<rparr>),
            deploy_catch (Error message) s3)"
  using assms by (simp_all add: deploy_def Let_def deploy_catch_current)

lemma deploy_try_current:
  "\<exists>d. currentDeployment (snd (deploy_try W projectPath config (deploy_begin W trg fids s))) = Some d
       \<and> DeploymentResult.id d = generateDeploymentId W (suspend W s)"
proof -
  obtain d where d: "currentDeployment (deploy_begin W trg fids s) = Some d"
      "DeploymentResult.id d = generateDeploymentId W (suspend W s)"
    using deploy_begin_current by blast
  show ?thesis using progress_current[OF progress_deploy_try d(1)] d(2) by metis
qed

text \<open>
  Claim C3, as amended. A call of \<^verbatim>\<open>deploy\<close> made while no deployment is running never
  throws: it returns the current result. When a phase raises an error, the result has
  status \<open>failed\<close>, its error is the message of the error raised, its \<open>finishedAt\<close> is
  stamped, and the last event the emitter (if there is one) received is a
  \<^verbatim>\<open>deployment_failed\<close> with the identifier of the result and that message.
\<close>

theorem deploy_returns_result:
  assumes "\<not> isDeploymentRunning s"
  shows "\<exists>d s'. deploy W projectPath trg fids s = (Inr d, s') \<and> currentDeployment s' = Some d
      \<and> (\<forall>message. fst (deploy_try W projectPath (getDeploymentConfig W projectPath s)
                          (deploy_begin W trg fids s)) = Inl (Error message) \<longrightarrow>
            DeploymentResult.status d = Failed \<and> DeploymentResult.error d = Some message
            \<and> finishedAt d = Some (clock s')
            \<and> (eventEmitter s \<noteq> None \<longrightarrow>
                 (\<exists>es e. eventEmitter s' = Some (es @ [e]) \<and> type e = DeploymentFailed
                    \<and> deploymentId e = DeploymentResult.id d
                    \<and> event_error e = Some message \<and> event_status e = Some ''failed'')))"
proof -
  let ?s2 = "deploy_begin W trg fids s"
  let ?config = "getDeploymentConfig W projectPath s"
  obtain r s3 where t: "deploy_try W projectPath ?config ?s2 = (r, s3)"
    by (cases "deploy_try W projectPath ?config ?s2")
  obtain d3 where d3: "currentDeployment s3 = Some d3"
    using deploy_try_current[of W projectPath ?config trg fids s] t by auto
  show ?thesis
  proof (cases r)
    case (Inr u)
    then have "deploy W projectPath trg fids s = (Inr d3, s3)"
      using deploy_unfold(1)[OF assms t d3] by simp
    then show ?thesis using d3 t Inr by simp
  next
    case (Inl e)
    obtain message where e: "e = Error message" by (cases e)
    let ?d = "d3\<lparr>DeploymentResult.status := Failed, finishedAt := Some (clock s3),
                         DeploymentResult.error := Some message\<rparr>"
    let ?s' = "deploy_catch (Error message) s3"
    have dep: "deploy W projectPath trg fids s = (Inr ?d, ?s')"
      using deploy_unfold(2)[OF assms t d3] Inl e by simp
    have cur: "currentDeployment ?s' = Some ?d" using d3 by (simp add: deploy_catch_current)
    have ev: "eventEmitter s \<noteq> None \<longrightarrow>
                 (\<exists>es e. eventEmitter ?s' = Some (es @ [e]) \<and> type e = DeploymentFailed
                    \<and> deploymentId e = DeploymentResult.id ?d
                    \<and> event_error e = Some message \<and> event_status e = Some ''failed'')"
    proof
      assume "eventEmitter s \<noteq> None"
      then obtain l where "eventEmitter s = Some l" by auto
      then obtain l2 where "eventEmitter ?s2 = Some l2"
        using deploy_begin_emitter[OF assms, of W trg fids] by auto
      then obtain l3 where l3: "eventEmitter s3 = Some l3"
        using progress_emitter[OF progress_deploy_try, of ?s2 l2 W projectPath ?config] t by auto
      from deploy_catch_emitter[OF d3, of message] obtain ev where
        "eventEmitter ?s' = map_option (\<lambda>l. l @ [ev]) (eventEmitter s3)"
        "type ev = DeploymentFailed" "deploymentId ev = DeploymentResult.id d3"
        "event_error ev = Some message" "event_status ev = Some ''failed''"
        by blast
      then show "\<exists>es e. eventEmitter ?s' = Some (es @ [e]) \<and> type e = DeploymentFailed
                    \<and> deploymentId e = DeploymentResult.id ?d
                    \<and> event_error e = Some message \<and> event_status e = Some ''failed''"
        using l3 by auto
    qed
    show ?thesis
      using dep cur ev t Inl e by simp
  qed
qed

lemma results_of_eq [simp]: "results_of Build = buildResults" "results_of Deploy = deployResults"
  by (rule ext, simp)+

lemma deploy_try_build_abort:
  assumes "DeploymentConfig.buildSteps config = pre @ step # post"
    and "no_fatal W projectPath (length (spawned s)) pre"
    and "fatal W projectPath (length (spawned s) + length pre) step"
  shows "fst (deploy_try W projectPath config s) = Inl (Error (''Build step failed: '' @ name step))"
    and "spawned (snd (deploy_try W projectPath config s))
           = spawned s @ map (spawn_entry projectPath) (pre @ [step])"
    and "map_option buildResults (currentDeployment (snd (deploy_try W projectPath config s)))
           = map_option (\<lambda>rs. rs @ step_results W projectPath (length (spawned s)) (pre @ [step]))
               (map_option buildResults (currentDeployment s))"
    and "map_option deployResults (currentDeployment (snd (deploy_try W projectPath config s)))
           = map_option deployResults (currentDeployment s)"
proof -
  let ?b = "build_phase W projectPath config s"
  have b: "fst ?b = Inl (Error (''Build step failed: '' @ name step))"
    "spawned (snd ?b) = spawned s @ map (spawn_entry projectPath) (pre @ [step])"
    "map_option (results_of Build) (currentDeployment (snd ?b))
           = map_option (\<lambda>rs. rs @ step_results W projectPath (length (spawned s)) (pre @ [step]))
               (map_option (results_of Build) (currentDeployment s))"
    using run_steps_abort[OF assms(2,3), of Build post] assms(1)
    by (simp_all add: build_phase_def)
  have o: "map_option (results_of Deploy) (currentDeployment (snd ?b))
             = map_option (results_of Deploy) (currentDeployment s)"
    unfolding build_phase_def by (rule run_steps_other_results) simp
  have t: "deploy_try W projectPath config s = ?b"
    using b(1) by (simp add: deploy_try_def and_then_Inl)
  show "fst (deploy_try W projectPath config s) = Inl (Error (''Build step failed: '' @ name step))"
    using t b(1) by simp
  show "spawned (snd (deploy_try W projectPath config s))
           = spawned s @ map (spawn_entry projectPath) (pre @ [step])"
    using t b(2) by simp
  show "map_option buildResults (currentDeployment (snd (deploy_try W projectPath config s)))
           = map_option (\<lambda>rs. rs @ step_results W projectPath (length (spawned s)) (pre @ [step]))
               (map_option buildResults (currentDeployment s))"
    using t b(3) by (simp add: option.map_comp comp_def)
  show "map_option deployResults (currentDeployment (snd (deploy_try W projectPath config s)))
           = map_option deployResults (currentDeployment s)"
    using t o by (simp add: option.map_comp comp_def)
qed

lemma deploy_try_deploy_abort:
  assumes "no_fatal W projectPath (length (spawned s)) (DeploymentConfig.buildSteps config)"
    and "DeploymentConfig.deploySteps config = pre @ step # post"
    and "no_fatal W projectPath (length (spawned s) + length (DeploymentConfig.buildSteps config)) pre"
    and "fatal W projectPath
           (length (spawned s) + length (DeploymentConfig.buildSteps config) + length pre) step"
  shows "fst (deploy_try W projectPath config s) = Inl (Error (''Deploy step failed: '' @ name step))"
    and "spawned (snd (deploy_try W projectPath config s))
           = spawned s @ map (spawn_entry projectPath) (DeploymentConfig.buildSteps config @ pre @ [step])"
    and "map_option buildResults (currentDeployment (snd (deploy_try W projectPath config s)))
           = map_option (\<lambda>rs. rs @ step_results W projectPath (length (spawned s))
                                      (DeploymentConfig.buildSteps config))
               (map_option buildResults (currentDeployment s))"
    and "map_option deployResults (currentDeployment (snd (deploy_try W projectPath config s)))
           = map_option (\<lambda>rs. rs @ step_results W projectPath
                                      (length (spawned s) + length (DeploymentConfig.buildSteps config))
                                      (pre @ [step]))
               (map_option deployResults (currentDeployment s))"
proof -
  let ?bs = "DeploymentConfig.buildSteps config"
  let ?b = "build_phase W projectPath config s"
  note complete = run_steps_complete[OF assms(1), of Build, unfolded results_of_eq, folded build_phase_def]
  have b1: "fst ?b = Inr ()" using complete by simp
  have b2: "spawned (snd ?b) = spawned s @ map (spawn_entry projectPath) ?bs" using complete by simp
  have b3: "map_option buildResults (currentDeployment (snd ?b))
           = map_option (\<lambda>rs. rs @ step_results W projectPath (length (spawned s)) ?bs)
               (map_option buildResults (currentDeployment s))"
    using complete by blast
  have bo: "map_option deployResults (currentDeployment (snd ?b))
             = map_option deployResults (currentDeployment s)"
    using run_steps_other_results[of Deploy Build W projectPath ?bs s]
    by (simp add: build_phase_def)
  let ?s2 = "emitEvent DeploymentStarted (no_data\<lparr>EventData.status := Some ''deploying''\<rparr>)
               (update_current (\<lambda>d. d\<lparr>DeploymentResult.status := Deploying\<rparr>) (snd ?b))"
  let ?d = "deploy_phase W projectPath config (snd ?b)"
  have dd: "?d = run_steps W Deploy projectPath (pre @ step # post) ?s2"
    using assms(2) by (simp add: deploy_phase_def Let_def)
  have n: "length (spawned ?s2) = length (spawned s) + length ?bs" using b2 by simp
  have sp2: "spawned ?s2 = spawned (snd ?b)" by simp
  have 1: "no_fatal W projectPath (length (spawned ?s2)) pre" using assms(3) n by simp
  have 2: "fatal W projectPath (length (spawned ?s2) + length pre) step" using assms(4) n by simp
  note abort = run_steps_abort[OF 1 2, of Deploy post, unfolded results_of_eq, folded dd]
  have d1: "fst ?d = Inl (Error (''Deploy step failed: '' @ name step))" using abort by simp
  have d2: "spawned (snd ?d) = spawned ?s2 @ map (spawn_entry projectPath) (pre @ [step])"
    using abort by blast
  have d3: "map_option deployResults (currentDeployment (snd ?d))
           = map_option (\<lambda>rs. rs @ step_results W projectPath (length (spawned ?s2)) (pre @ [step]))
               (map_option deployResults (currentDeployment ?s2))"
    using abort by blast
  have do: "map_option buildResults (currentDeployment (snd ?d))
             = map_option buildResults (currentDeployment ?s2)"
    using run_steps_other_results[of Build Deploy W projectPath "pre @ step # post" ?s2]
    unfolding dd by simp
  have t: "deploy_try W projectPath config s = ?d"
    using b1 d1 by (simp add: deploy_try_def and_then_Inl and_then_Inr)
  have s2b: "map_option buildResults (currentDeployment ?s2) = map_option buildResults (currentDeployment (snd ?b))"
    "map_option deployResults (currentDeployment ?s2) = map_option deployResults (currentDeployment (snd ?b))"
    by (simp_all add: option.map_comp comp_def)
  show "fst (deploy_try W projectPath config s) = Inl (Error (''Deploy step failed: '' @ name step))"
    using t d1 by simp
  show "spawned (snd (deploy_try W projectPath config s))
           = spawned s @ map (spawn_entry projectPath) (?bs @ pre @ [step])"
    by (simp only: t d2 sp2 b2 map_append append_assoc)
  show "map_option buildResults (currentDeployment (snd (deploy_try W projectPath config s)))
           = map_option (\<lambda>rs. rs @ step_results W projectPath (length (spawned s)) ?bs)
               (map_option buildResults (currentDeployment s))"
    by (simp only: t do s2b b3)
  show "map_option deployResults (currentDeployment (snd (deploy_try W projectPath config s)))
           = map_option (\<lambda>rs. rs @ step_results W projectPath (length (spawned s) + length ?bs) (pre @ [step]))
               (map_option deployResults (currentDeployment s))"
    by (simp only: t d3 s2b bo n)
qed

text \<open>The end of a run whose \<open>try\<close> block throws.\<close>

lemma deploy_failed_run:
  assumes "\<not> isDeploymentRunning s"
    and "fst (deploy_try W projectPath (getDeploymentConfig W projectPath s) (deploy_begin W trg fids s))
           = Inl (Error message)"
    and "spawned (snd (deploy_try W projectPath (getDeploymentConfig W projectPath s) (deploy_begin W trg fids s)))
           = sp"
    and "map_option buildResults (currentDeployment
            (snd (deploy_try W projectPath (getDeploymentConfig W projectPath s) (deploy_begin W trg fids s))))
           = map_option (\<lambda>rs. rs @ brs) (map_option buildResults (currentDeployment (deploy_begin W trg fids s)))"
    and "map_option deployResults (currentDeployment
            (snd (deploy_try W projectPath (getDeploymentConfig W projectPath s) (deploy_begin W trg fids s))))
           = map_option (\<lambda>rs. rs @ drs) (map_option deployResults (currentDeployment (deploy_begin W trg fids s)))"
  shows "\<exists>d s'. deploy W projectPath trg fids s = (Inr d, s')
           \<and> DeploymentResult.status d = Failed \<and> DeploymentResult.error d = Some message
           \<and> buildResults d = brs \<and> deployResults d = drs \<and> spawned s' = sp"
proof -
  let ?s2 = "deploy_begin W trg fids s"
  let ?config = "getDeploymentConfig W projectPath s"
  obtain r s3 where t: "deploy_try W projectPath ?config ?s2 = (r, s3)"
    by (cases "deploy_try W projectPath ?config ?s2")
  obtain d3 where d3: "currentDeployment s3 = Some d3"
    using deploy_try_current[of W projectPath ?config trg fids s] t by auto
  obtain d2 where d2: "currentDeployment ?s2 = Some d2" "buildResults d2 = []" "deployResults d2 = []"
    using deploy_begin_current[of W trg fids s] by blast
  have r: "r = Inl (Error message)" using assms(2) t by simp
  have "buildResults d3 = brs" "deployResults d3 = drs" "spawned s3 = sp"
    using assms(3,4,5) t d3 d2 by simp_all
  then show ?thesis
    using deploy_unfold(2)[OF assms(1) t d3 r] by simp
qed


lemma progress_events:
  assumes "progress W T s s'" and "eventEmitter s = Some l" and "currentDeployment s = Some d"
  shows "\<exists>es d'. eventEmitter s' = Some (l @ es) \<and> currentDeployment s' = Some d'
           \<and> DeploymentResult.id d' = DeploymentResult.id d
           \<and> (\<forall>e \<in> set es. (type e \<in> T \<or> (type e = DeploymentFailed \<and> (\<exists>k. cancels W k)))
                 \<and> deploymentId e = DeploymentResult.id d)"
proof -
  from assms(1) obtain es where
    es: "eventEmitter s' = map_option (\<lambda>l. l @ es) (eventEmitter s)"
        "\<forall>e \<in> set es. (type e \<in> T \<or> (type e = DeploymentFailed \<and> (\<exists>k. cancels W k)))
            \<and> Some (deploymentId e) = map_option DeploymentResult.id (currentDeployment s)"
    unfolding progress_def by blast
  obtain d' where "currentDeployment s' = Some d'" "DeploymentResult.id d' = DeploymentResult.id d"
    using progress_current[OF assms(1,3)] by blast
  then show ?thesis using es assms(2,3) by auto
qed

lemma on_success_effect:
  assumes "currentDeployment s = Some d"
  shows "fst (on_success s) = Inr ()"
    and "\<exists>d'. currentDeployment (snd (on_success s)) = Some d'
            \<and> DeploymentResult.status d' = Success \<and> DeploymentResult.id d' = DeploymentResult.id d"
    and "\<exists>e. eventEmitter (snd (on_success s)) = map_option (\<lambda>l. l @ [e]) (eventEmitter s)
            \<and> type e = DeploymentCompleted \<and> deploymentId e = DeploymentResult.id d"
proof -
  show "fst (on_success s) = Inr ()" by (simp add: on_success_def Let_def)
  show "\<exists>d'. currentDeployment (snd (on_success s)) = Some d'
            \<and> DeploymentResult.status d' = Success \<and> DeploymentResult.id d' = DeploymentResult.id d"
    using assms by (simp add: on_success_def Let_def)
  show "\<exists>e. eventEmitter (snd (on_success s)) = map_option (\<lambda>l. l @ [e]) (eventEmitter s)
            \<and> type e = DeploymentCompleted \<and> deploymentId e = DeploymentResult.id d"
    using assms
    by (intro exI[of _ "\<lparr>type = DeploymentCompleted, deploymentId = DeploymentResult.id d,
         timestamp = clock s,
         data = Some (no_data\<lparr>EventData.status := Some ''success'',
                 EventData.result := Some (OfDeployment
                   (d\<lparr>DeploymentResult.status := Success, finishedAt := Some (clock s)\<rparr>))\<rparr>)\<rparr>"])
      (simp add: on_success_def Let_def eventEmitter_emitEvent)
qed

lemma deploy_try_phases': "deploy_try W projectPath config s = and_then (phases W projectPath config s) on_success"
  by (simp add: deploy_try_def phases_def)

lemma progress_phases:
  "progress W (- {DeploymentCompleted, DeploymentFailed}) s (snd (phases W projectPath config s))"
  unfolding phases_def
  by (intro progress_and_then progress_build_phase progress_deploy_phase progress_health_phase
      progress_e2e_phase) simp_all

lemma cancelDeployment_finished:
  "currentDeployment s = Some d \<Longrightarrow>
   DeploymentResult.status d = Success \<or> DeploymentResult.status d = Failed \<Longrightarrow>
   cancelDeployment s = s"
  by (auto simp: cancelDeployment_def isDeploymentRunning_def)


lemma progress_later_phases:
  "progress W (- {DeploymentStarted}) s (snd (later_phases W projectPath config s))"
  unfolding later_phases_def
  by (intro progress_and_then progress_run_steps progress_health_phase
      progress_e2e_phase progress_on_success) simp_all

lemma deploy_try_after_build:
  assumes "fst (build_phase W projectPath config s) = Inr ()"
  shows "deploy_try W projectPath config s =
           later_phases W projectPath config
             (emitEvent DeploymentStarted (no_data\<lparr>EventData.status := Some ''deploying''\<rparr>)
               (update_current (\<lambda>d. d\<lparr>DeploymentResult.status := Deploying\<rparr>)
                 (snd (build_phase W projectPath config s))))"
  using assms
  by (simp add: deploy_try_def later_phases_def and_then_Inr deploy_phase_def Let_def)

lemma filter_started_progress:
  assumes "\<forall>e \<in> set es. (type e \<in> T \<or> (type e = DeploymentFailed \<and> P)) \<and> Q e"
    and "DeploymentStarted \<notin> T"
  shows "filter (\<lambda>e. type e = DeploymentStarted) es = []"
  using assms by (auto simp: filter_empty_conv)


section \<open>Runs on example projects\<close>

lemma service_with_config:
  "fs_fails W (ReadFile ''/srv/app/.automaker/deployment.json'') = None \<Longrightarrow>
   getDeploymentConfig W ''/srv/app'' (service_with c) = c"
  by (simp add: getDeploymentConfig_def readJsonFile_def getDeploymentConfigPath_def
      service_with_def spread_to_document)

lemma service_with_idle: "\<not> isDeploymentRunning (service_with c)" "spawned (service_with c) = []"
  "eventEmitter (service_with c) = Some []"
  by (simp_all add: isDeploymentRunning_def service_with_def new_service_def)

lemmas example_steps =
  rough_world_def calm_world_def plain_step_def fatal_def step_result_def step_settlement_def
  executeCommand_def on_close_def spawn_entry_def


lemma build_fails_steps:
  "DeploymentConfig.buildSteps build_fails =
     [plain_step ''install'' ''npm ci'',
      (plain_step ''lint'' ''npm run lint'')\<lparr>continueOnError := Some True\<rparr>]
     @ plain_step ''test'' ''npm test'' # [plain_step ''bundle'' ''npm run build'']"
  by (simp add: build_fails_def)

lemma build_fails_no_fatal:
  "no_fatal rough_world ''/srv/app'' k
     [plain_step ''install'' ''npm ci'',
      (plain_step ''lint'' ''npm run lint'')\<lparr>continueOnError := Some True\<rparr>]"
  by (simp add: example_steps)

lemma build_fails_fatal: "fatal rough_world ''/srv/app'' k (plain_step ''test'' ''npm test'')"
  by (simp add: example_steps)

lemma rough_world_reads: "fs_fails rough_world op = None" "fs_fails calm_world op = None"
  by (simp_all add: rough_world_def calm_world_def)

theorem deploy_returns_result_witness:
  "\<exists>d s'. deploy rough_world ''/srv/app'' Manual None (service_with build_fails) = (Inr d, s')
     \<and> currentDeployment s' = Some d \<and> DeploymentResult.status d = Failed
     \<and> DeploymentResult.error d = Some ''Build step failed: test''
     \<and> finishedAt d = Some (clock s')"
proof -
  let ?s = "service_with build_fails"
  have c: "getDeploymentConfig rough_world ''/srv/app'' ?s = build_fails"
    by (rule service_with_config) (rule rough_world_reads)
  have 1: "no_fatal rough_world ''/srv/app'' (length (spawned (deploy_begin rough_world Manual None ?s)))
     [plain_step ''install'' ''npm ci'',
      (plain_step ''lint'' ''npm run lint'')\<lparr>continueOnError := Some True\<rparr>]"
    by (rule build_fails_no_fatal)
  have 2: "fatal rough_world ''/srv/app'' (length (spawned (deploy_begin rough_world Manual None ?s))
      + length [plain_step ''install'' ''npm ci'',
      (plain_step ''lint'' ''npm run lint'')\<lparr>continueOnError := Some True\<rparr>])
      (plain_step ''test'' ''npm test'')"
    by (rule build_fails_fatal)
  have t: "fst (deploy_try rough_world ''/srv/app'' (getDeploymentConfig rough_world ''/srv/app'' ?s)
              (deploy_begin rough_world Manual None ?s)) = Inl (Error ''Build step failed: test'')"
    using deploy_try_build_abort(1)[OF build_fails_steps 1 2] by (simp add: c plain_step_def)
  from deploy_returns_result[OF service_with_idle(1), of rough_world "''/srv/app''" Manual None build_fails]
  obtain d s' where "deploy rough_world ''/srv/app'' Manual None ?s = (Inr d, s')"
    "currentDeployment s' = Some d"
    "\<forall>message. fst (deploy_try rough_world ''/srv/app'' (getDeploymentConfig rough_world ''/srv/app'' ?s)
                          (deploy_begin rough_world Manual None ?s)) = Inl (Error message) \<longrightarrow>
            DeploymentResult.status d = Failed \<and> DeploymentResult.error d = Some message
            \<and> finishedAt d = Some (clock s')
            \<and> (eventEmitter ?s \<noteq> None \<longrightarrow>
                 (\<exists>es e. eventEmitter s' = Some (es @ [e]) \<and> type e = DeploymentFailed
                    \<and> deploymentId e = DeploymentResult.id d
                    \<and> event_error e = Some message \<and> event_status e = Some ''failed''))"
    by blast
  then show ?thesis using t by blast
qed

text \<open>
  The claim C3 as first stated speaks of every input. A call made while a deployment is
  running is rejected: the guard stands before the \<^verbatim>\<open>try\<close> block.
\<close>

theorem deploy_throws_when_running:
  "fst (deploy calm_world ''/srv/app'' Manual None (new_service\<lparr>currentDeployment := Some building\<rparr>))
     = Inl (Error ''A deployment is already in progress'')"
  by (simp add: deploy_def isDeploymentRunning_def building_def)

lemma deploy_fails_steps:
  "DeploymentConfig.buildSteps deploy_fails =
     [plain_step ''install'' ''npm ci'',
      (plain_step ''lint'' ''npm run lint'')\<lparr>continueOnError := Some True\<rparr>]"
  "DeploymentConfig.deploySteps deploy_fails =
     [plain_step ''push'' ''./push.sh''] @ plain_step ''migrate'' ''./migrate.sh''
       # [plain_step ''restart'' ''./restart.sh'']"
  by (simp_all add: deploy_fails_def)


lemma calm_no_cancel: "\<forall>k. \<not> cancels calm_world k"
  by (simp add: calm_world_def)




section \<open>Properties of the test counts\<close>

lemma first_some_None_iff: "first_some f xs = None \<longleftrightarrow> (\<forall>x \<in> set xs. f x = None)"
  by (induction xs) (auto split: option.splits)

lemma first_some_SomeD: "first_some f xs = Some y \<Longrightarrow> \<exists>x \<in> set xs. f x = Some y"
  by (induction xs) (auto split: option.splits)

lemma first_some_not_None: "x \<in> set xs \<Longrightarrow> f x \<noteq> None \<Longrightarrow> first_some f xs \<noteq> None"
  by (simp add: first_some_None_iff) blast

lemma take_takeWhile_all:
  "n \<le> length (takeWhile P s) \<Longrightarrow> list_all P (take n s)"
  by (induction s arbitrary: n) (auto simp: take_Cons split: nat.splits if_splits)

lemma length_takeWhile_append:
  "list_all P d \<Longrightarrow> length d \<le> length (takeWhile P (d @ w))"
  by (induction d) auto

lemma lit_here_split:
  "lit_here l s \<Longrightarrow> s = take (length l) s @ drop (length l) s \<and> map to_lower (take (length l) s) = l"
  by (simp add: lit_here_def)

lemma lit_here_append: "map to_lower p = l \<Longrightarrow> lit_here l (p @ w) \<and> drop (length l) (p @ w) = w"
  by (auto simp: lit_here_def)

lemma rx_match_sound:
  "rx_match r s caps = Some caps' \<Longrightarrow>
   \<exists>w post cs. s = w @ post \<and> caps' = caps @ cs \<and> rx_lang r w cs"
proof (induction r arbitrary: s caps)
  case Nil
  then show ?case by simp
next
  case (Cons x r)
  show ?case
  proof (cases x)
    case (Lit l)
    with Cons.prems have l: "lit_here l s" and m: "rx_match r (drop (length l) s) caps = Some caps'"
      by (auto split: if_splits)
    from Cons.IH[OF m] obtain w post cs where
      w: "drop (length l) s = w @ post" "caps' = caps @ cs" "rx_lang r w cs" by blast
    have "s = (take (length l) s @ w) @ post" using lit_here_split[OF l] w(1) by simp
    moreover have "rx_lang (Lit l # r) (take (length l) s @ w) cs"
      using lit_here_split[OF l] w(3) by auto
    ultimately show ?thesis using w(2) unfolding Lit by blast
  next
    case Digits
    with Cons.prems have "first_some (\<lambda>n. rx_match r (drop n s) (caps @ [take n s]))
       (rev [1 ..< Suc (length (takeWhile is_digit s))]) = Some caps'" by simp
    from first_some_SomeD[OF this] obtain n where
      n: "n \<in> set (rev [1 ..< Suc (length (takeWhile is_digit s))])"
         "rx_match r (drop n s) (caps @ [take n s]) = Some caps'"
      by blast
    from n(1) have n1: "1 \<le> n" and n2: "n \<le> length (takeWhile is_digit s)" by auto
    from Cons.IH[OF n(2)] obtain w post cs where
      w: "drop n s = w @ post" "caps' = (caps @ [take n s]) @ cs" "rx_lang r w cs" by blast
    have "n \<le> length s" using n2 length_takeWhile_le[of is_digit s] by (rule order_trans)
    then have "length (take n s) = n" by simp
    then have ne: "take n s \<noteq> []" using n1 by auto
    have dr: "digit_run (take n s)"
      using take_takeWhile_all[OF n2] ne by (simp add: digit_run_def)
    have "take n s @ drop n s = s" by simp
    then have "s = (take n s @ w) @ post" using w(1) by simp
    moreover have "rx_lang (Digits # r) (take n s @ w) (take n s # cs)" using dr w(3) by auto
    moreover have "caps' = caps @ (take n s # cs)" using w(2) by simp
    ultimately show ?thesis unfolding Digits by blast
  next
    case LazyDots
    with Cons.prems have "first_some (\<lambda>n. rx_match r (drop n s) caps)
       [0 ..< Suc (length (takeWhile is_dot s))] = Some caps'" by simp
    from first_some_SomeD[OF this] obtain n where
      n: "n \<in> set [0 ..< Suc (length (takeWhile is_dot s))]"
         "rx_match r (drop n s) caps = Some caps'"
      by blast
    from n(1) have n2: "n \<le> length (takeWhile is_dot s)" by auto
    from Cons.IH[OF n(2)] obtain w post cs where
      w: "drop n s = w @ post" "caps' = caps @ cs" "rx_lang r w cs" by blast
    have "take n s @ drop n s = s" by simp
    then have "s = (take n s @ w) @ post" using w(1) by simp
    moreover have "rx_lang (LazyDots # r) (take n s @ w) cs"
      using take_takeWhile_all[OF n2] w(3) by (auto simp: same_line_def)
    ultimately show ?thesis using w(2) unfolding LazyDots by blast
  qed
qed

lemma rx_match_complete:
  "rx_lang r w cs \<Longrightarrow> rx_match r (w @ post) caps \<noteq> None"
proof (induction r arbitrary: w cs caps)
  case Nil
  then show ?case by simp
next
  case (Cons x r)
  show ?case
  proof (cases x)
    case (Lit l)
    with Cons.prems obtain p w' where p: "w = p @ w'" "map to_lower p = l" "rx_lang r w' cs" by auto
    show ?thesis using lit_here_append[OF p(2), of "w' @ post"] Cons.IH[OF p(3)] p(1) Lit by simp
  next
    case Digits
    with Cons.prems obtain d w' cs' where
      d: "w = d @ w'" "digit_run d" "cs = d # cs'" "rx_lang r w' cs'" by auto
    have len: "length d \<le> length (takeWhile is_digit ((d @ w') @ post))"
      using d(2) length_takeWhile_append[of is_digit d "w' @ post"] by (simp add: digit_run_def)
    have pos: "1 \<le> length d" using d(2) by (cases d) (simp_all add: digit_run_def)
    have mem: "length d \<in> set (rev [1 ..< Suc (length (takeWhile is_digit ((d @ w') @ post)))])"
      using len pos by auto
    have nn: "rx_match r (drop (length d) ((d @ w') @ post)) (caps @ [take (length d) ((d @ w') @ post)]) \<noteq> None"
      using Cons.IH[OF d(4)] by simp
    show ?thesis
      unfolding Digits d(1) rx_match.simps by (rule first_some_not_None[OF mem]) (rule nn)
  next
    case LazyDots
    with Cons.prems obtain g w' where g: "w = g @ w'" "same_line g" "rx_lang r w' cs" by auto
    have len: "length g \<le> length (takeWhile is_dot ((g @ w') @ post))"
      using g(2) length_takeWhile_append[of is_dot g "w' @ post"] by (simp add: same_line_def)
    have mem: "length g \<in> set [0 ..< Suc (length (takeWhile is_dot ((g @ w') @ post)))]"
      using len by auto
    have nn: "rx_match r (drop (length g) ((g @ w') @ post)) caps \<noteq> None"
      using Cons.IH[OF g(3)] by simp
    show ?thesis
      unfolding LazyDots g(1) rx_match.simps by (rule first_some_not_None[OF mem]) (rule nn)
  qed
qed

lemma rx_search_sound:
  "rx_search r s = Some cs \<Longrightarrow> \<exists>pre w post. s = pre @ w @ post \<and> rx_lang r w cs"
proof -
  assume "rx_search r s = Some cs"
  then obtain i where "rx_match r (drop i s) [] = Some cs"
    unfolding rx_search_def by (auto dest!: first_some_SomeD)
  from rx_match_sound[OF this] obtain w post where "drop i s = w @ post" and "rx_lang r w cs" by auto
  moreover have "take i s @ drop i s = s" by simp
  ultimately have "s = take i s @ w @ post" by simp
  then show ?thesis using \<open>rx_lang r w cs\<close> by blast
qed

lemma rx_search_complete:
  "rx_lang r w cs \<Longrightarrow> rx_search r (pre @ w @ post) \<noteq> None"
proof -
  assume "rx_lang r w cs"
  then have nn: "rx_match r (drop (length pre) (pre @ w @ post)) [] \<noteq> None"
    using rx_match_complete by simp
  have mem: "length pre \<in> set [0 ..< Suc (length (pre @ w @ post))]" by simp
  show ?thesis unfolding rx_search_def by (rule first_some_not_None[OF mem]) (rule nn)
qed

lemma rx_lang_DigitsE:
  assumes "rx_lang (Digits # r) w cs"
  obtains d w' cs' where "w = d @ w'" "digit_run d" "cs = d # cs'" "rx_lang r w' cs'"
  using assms by auto

lemma rx_lang_LitE:
  assumes "rx_lang (Lit l # r) w cs"
  obtains p w' where "w = p @ w'" "map to_lower p = l" "rx_lang r w' cs"
  using assms by auto

lemma rx_lang_LazyDotsE:
  assumes "rx_lang (LazyDots # r) w cs"
  obtains g w' where "w = g @ w'" "same_line g" "rx_lang r w' cs"
  using assms by auto

lemma rx_lang_DigitsI: "digit_run d \<Longrightarrow> rx_lang r w' cs' \<Longrightarrow> rx_lang (Digits # r) (d @ w') (d # cs')"
  by auto

lemma rx_lang_LitI: "map to_lower p = l \<Longrightarrow> rx_lang r w' cs \<Longrightarrow> rx_lang (Lit l # r) (p @ w') cs"
  by auto

lemma rx_lang_LazyDotsI: "same_line g \<Longrightarrow> rx_lang r w' cs \<Longrightarrow> rx_lang (LazyDots # r) (g @ w') cs"
  by auto

lemma playwright_lang_phrase:
  assumes "rx_lang playwright w cs"
  obtains n p g1 m f g2 k sk where "w = n @ p @ g1 @ m @ f @ g2 @ k @ sk" "cs = [n, m, k]"
    "digit_run n" "digit_run m" "digit_run k"
    "map to_lower p = '' passed''" "map to_lower f = '' failed''" "map to_lower sk = '' skipped''"
    "same_line g1" "same_line g2"
proof -
  from assms[unfolded playwright_def] obtain n w1 c1 where 1: "w = n @ w1" "digit_run n" "cs = n # c1"
      "rx_lang [Lit '' passed'', LazyDots, Digits, Lit '' failed'', LazyDots, Digits, Lit '' skipped''] w1 c1"
    by (rule rx_lang_DigitsE)
  from 1(4) obtain p w2 where 2: "w1 = p @ w2" "map to_lower p = '' passed''"
      "rx_lang [LazyDots, Digits, Lit '' failed'', LazyDots, Digits, Lit '' skipped''] w2 c1"
    by (rule rx_lang_LitE)
  from 2(3) obtain g1 w3 where 3: "w2 = g1 @ w3" "same_line g1"
      "rx_lang [Digits, Lit '' failed'', LazyDots, Digits, Lit '' skipped''] w3 c1"
    by (rule rx_lang_LazyDotsE)
  from 3(3) obtain m w4 c2 where 4: "w3 = m @ w4" "digit_run m" "c1 = m # c2"
      "rx_lang [Lit '' failed'', LazyDots, Digits, Lit '' skipped''] w4 c2"
    by (rule rx_lang_DigitsE)
  from 4(4) obtain f w5 where 5: "w4 = f @ w5" "map to_lower f = '' failed''"
      "rx_lang [LazyDots, Digits, Lit '' skipped''] w5 c2"
    by (rule rx_lang_LitE)
  from 5(3) obtain g2 w6 where 6: "w5 = g2 @ w6" "same_line g2" "rx_lang [Digits, Lit '' skipped''] w6 c2"
    by (rule rx_lang_LazyDotsE)
  from 6(3) obtain k w7 c3 where 7: "w6 = k @ w7" "digit_run k" "c2 = k # c3" "rx_lang [Lit '' skipped''] w7 c3"
    by (rule rx_lang_DigitsE)
  from 7(4) obtain sk w8 where 8: "w7 = sk @ w8" "map to_lower sk = '' skipped''" "rx_lang [] w8 c3"
    by (rule rx_lang_LitE)
  from 8(3) have 9: "w8 = []" "c3 = []" by simp_all
  have "w = n @ p @ g1 @ m @ f @ g2 @ k @ sk" "cs = [n, m, k]"
    using 1(1,3) 2(1) 3(1) 4(1,3) 5(1) 6(1) 7(1,3) 8(1) 9 by simp_all
  then show thesis by (rule that[OF _ _ 1(2) 4(2) 7(2) 2(2) 5(2) 8(2) 3(2) 6(2)])
qed

lemma phrase_playwright_lang:
  assumes "digit_run n" "digit_run m" "digit_run k"
    "map to_lower p = '' passed''" "map to_lower f = '' failed''" "map to_lower sk = '' skipped''"
    "same_line g1" "same_line g2"
  shows "rx_lang playwright (n @ p @ g1 @ m @ f @ g2 @ k @ sk) [n, m, k]"
proof -
  have 9: "rx_lang [] [] []" by simp
  have 8: "rx_lang [Lit '' skipped''] (sk @ []) []" by (rule rx_lang_LitI[OF assms(6) 9])
  have 7: "rx_lang [Digits, Lit '' skipped''] (k @ sk @ []) [k]" by (rule rx_lang_DigitsI[OF assms(3) 8])
  have 6: "rx_lang [LazyDots, Digits, Lit '' skipped''] (g2 @ k @ sk @ []) [k]"
    by (rule rx_lang_LazyDotsI[OF assms(8) 7])
  have 5: "rx_lang [Lit '' failed'', LazyDots, Digits, Lit '' skipped''] (f @ g2 @ k @ sk @ []) [k]"
    by (rule rx_lang_LitI[OF assms(5) 6])
  have 4: "rx_lang [Digits, Lit '' failed'', LazyDots, Digits, Lit '' skipped'']
             (m @ f @ g2 @ k @ sk @ []) [m, k]"
    by (rule rx_lang_DigitsI[OF assms(2) 5])
  have 3: "rx_lang [LazyDots, Digits, Lit '' failed'', LazyDots, Digits, Lit '' skipped'']
             (g1 @ m @ f @ g2 @ k @ sk @ []) [m, k]"
    by (rule rx_lang_LazyDotsI[OF assms(7) 4])
  have 2: "rx_lang [Lit '' passed'', LazyDots, Digits, Lit '' failed'', LazyDots, Digits, Lit '' skipped'']
             (p @ g1 @ m @ f @ g2 @ k @ sk @ []) [m, k]"
    by (rule rx_lang_LitI[OF assms(4) 3])
  have 1: "rx_lang playwright (n @ p @ g1 @ m @ f @ g2 @ k @ sk @ []) [n, m, k]"
    unfolding playwright_def by (rule rx_lang_DigitsI[OF assms(1) 2])
  then show ?thesis by simp
qed

lemma count_phrase_lang:
  "count_phrase out n m k \<longleftrightarrow> (\<exists>pre w post. out = pre @ w @ post \<and> rx_lang playwright w [n, m, k])"
proof
  assume "count_phrase out n m k"
  then show "\<exists>pre w post. out = pre @ w @ post \<and> rx_lang playwright w [n, m, k]"
    unfolding count_phrase_def
  proof (elim exE conjE)
    fix pre p g1 f g2 sk post
    assume a: "out = pre @ n @ p @ g1 @ m @ f @ g2 @ k @ sk @ post"
      "digit_run n" "digit_run m" "digit_run k"
      "map to_lower p = '' passed''" "map to_lower f = '' failed''" "map to_lower sk = '' skipped''"
      "same_line g1" "same_line g2"
    have l: "rx_lang playwright (n @ p @ g1 @ m @ f @ g2 @ k @ sk) [n, m, k]"
      by (rule phrase_playwright_lang[OF a(2-9)])
    have o: "out = pre @ (n @ p @ g1 @ m @ f @ g2 @ k @ sk) @ post"
      by (simp only: a(1) append_assoc)
    show "\<exists>pre w post. out = pre @ w @ post \<and> rx_lang playwright w [n, m, k]"
      by (rule exI[of _ pre], rule exI[of _ "n @ p @ g1 @ m @ f @ g2 @ k @ sk"], rule exI[of _ post],
          rule conjI[OF o l])
  qed
next
  assume "\<exists>pre w post. out = pre @ w @ post \<and> rx_lang playwright w [n, m, k]"
  then show "count_phrase out n m k"
  proof (elim exE conjE)
    fix pre w post
    assume o: "out = pre @ w @ post" and l: "rx_lang playwright w [n, m, k]"
    from l obtain n' p g1 m' f g2 k' sk where a: "w = n' @ p @ g1 @ m' @ f @ g2 @ k' @ sk"
        "[n, m, k] = [n', m', k']"
        "digit_run n'" "digit_run m'" "digit_run k'"
        "map to_lower p = '' passed''" "map to_lower f = '' failed''" "map to_lower sk = '' skipped''"
        "same_line g1" "same_line g2"
      by (rule playwright_lang_phrase)
    have e: "n' = n" "m' = m" "k' = k" using a(2) by simp_all
    have o': "out = pre @ n @ p @ g1 @ m @ f @ g2 @ k @ sk @ post"
      by (simp only: o a(1) e append_assoc)
    have big: "out = pre @ n @ p @ g1 @ m @ f @ g2 @ k @ sk @ post
        \<and> digit_run n \<and> digit_run m \<and> digit_run k
        \<and> map to_lower p = '' passed'' \<and> map to_lower f = '' failed''
        \<and> map to_lower sk = '' skipped''
        \<and> same_line g1 \<and> same_line g2"
      using o' a(3-10)[unfolded e] by (intro conjI)
    show "count_phrase out n m k"
      unfolding count_phrase_def by (intro exI) (rule big)
  qed
qed

lemma first_some_append:
  "first_some f (xs @ ys) = (case first_some f xs of Some y \<Rightarrow> Some y | None \<Rightarrow> first_some f ys)"
  by (induction xs) (auto split: option.splits)

lemma first_some_upt:
  assumes "\<forall>j < i. f j = None" and "f i = Some y" and "i < N"
  shows "first_some f [0 ..< N] = Some y"
proof -
  have "[0 ..< N] = [0 ..< i] @ [i ..< N]"
    using upt_add_eq_append[of 0 i "N - i"] assms(3) by simp
  also have "[i ..< N] = i # [Suc i ..< N]" using assms(3) by (rule upt_conv_Cons)
  finally have s: "[0 ..< N] = [0 ..< i] @ i # [Suc i ..< N]" .
  have "first_some f [0 ..< i] = None" using assms(1) by (simp add: first_some_None_iff)
  then show ?thesis unfolding s first_some_append using assms(2) by simp
qed

lemma digits_none: "no_digit_ahead s \<Longrightarrow> rx_match (Digits # r) s caps = None"
  by (cases s) (simp_all add: no_digit_ahead_def)

lemma takeWhile_run:
  "list_all P n \<Longrightarrow> (case rest of [] \<Rightarrow> True | c # cs \<Rightarrow> \<not> P c) \<Longrightarrow> takeWhile P (n @ rest) = n"
  by (induction n) (auto split: list.splits)

lemma digits_greedy:
  assumes "digit_run n" and "no_digit_ahead rest" and "rx_match r rest (caps @ [n]) = Some y"
  shows "rx_match (Digits # r) (n @ rest) caps = Some y"
proof -
  have t: "takeWhile is_digit (n @ rest) = n"
    using assms(1,2) by (intro takeWhile_run) (simp_all add: digit_run_def no_digit_ahead_def)
  have pos: "1 \<le> length n" using assms(1) by (cases n) (simp_all add: digit_run_def)
  then have u: "[1 ..< Suc (length n)] = [1 ..< length n] @ [length n]" by simp
  show ?thesis
    unfolding rx_match.simps t u using assms(3) by simp
qed

lemma lit_step: "map to_lower p = l \<Longrightarrow> rx_match (Lit l # r) (p @ rest) caps = rx_match r rest caps"
  using lit_here_append[of p l rest] by simp

lemma ahead_in_gap:
  assumes "j < length g" and "list_all (\<lambda>c. \<not> is_digit c) g"
  shows "no_digit_ahead (drop j (g @ rest))"
proof -
  have "drop j (g @ rest) = (g ! j) # drop (Suc j) g @ rest"
    using assms(1) by (simp add: Cons_nth_drop_Suc)
  moreover have "\<not> is_digit (g ! j)" using assms by (simp add: list_all_length)
  ultimately show ?thesis by (simp add: no_digit_ahead_def)
qed

lemma lazy_gap:
  assumes "list_all is_dot g" and "list_all (\<lambda>c. \<not> is_digit c) g"
    and "rx_match (Digits # r) rest caps = Some y"
  shows "rx_match (LazyDots # Digits # r) (g @ rest) caps = Some y"
proof -
  have len: "length g < Suc (length (takeWhile is_dot (g @ rest)))"
    using length_takeWhile_append[OF assms(1), of rest] by simp
  have none: "\<forall>j < length g. rx_match (Digits # r) (drop j (g @ rest)) caps = None"
    using ahead_in_gap[OF _ assms(2)] digits_none by blast
  have here: "rx_match (Digits # r) (drop (length g) (g @ rest)) caps = Some y"
    using assms(3) by simp
  show ?thesis
    unfolding rx_match.simps(4)
    by (rule first_some_upt[where i = "length g", OF none here len])
qed

lemma search_after_text:
  assumes "list_all (\<lambda>c. \<not> is_digit c) pre" and "rx_match (Digits # r) rest [] = Some y"
  shows "rx_search (Digits # r) (pre @ rest) = Some y"
proof -
  have len: "length pre < Suc (length (pre @ rest))" by simp
  have none: "\<forall>j < length pre. rx_match (Digits # r) (drop j (pre @ rest)) [] = None"
    using ahead_in_gap[OF _ assms(1)] digits_none by blast
  have here: "rx_match (Digits # r) (drop (length pre) (pre @ rest)) [] = Some y"
    using assms(2) by simp
  show ?thesis
    unfolding rx_search_def
    by (rule first_some_upt[where i = "length pre", OF none here len])
qed

lemma digit_keeps_case: "is_digit c \<Longrightarrow> to_lower c = c"
proof -
  assume "is_digit c"
  then consider "c = CHR ''0''" | "c = CHR ''1''" | "c = CHR ''2''" | "c = CHR ''3''" | "c = CHR ''4''"
    | "c = CHR ''5''" | "c = CHR ''6''" | "c = CHR ''7''" | "c = CHR ''8''" | "c = CHR ''9''"
    unfolding is_digit_def by fastforce
  then show ?thesis by cases (simp_all add: to_lower_def)
qed

lemma ahead_of_literal:
  assumes "map to_lower p = CHR '' '' # l"
  shows "no_digit_ahead (p @ rest)"
proof -
  from assms obtain c p' where p: "p = c # p'" "to_lower c = CHR '' ''" by (cases p) auto
  have "\<not> is_digit c"
  proof
    assume "is_digit c"
    then have "c = CHR '' ''" using digit_keeps_case p(2) by simp
    with \<open>is_digit c\<close> show False by (simp add: is_digit_def)
  qed
  then show ?thesis using p(1) by (simp add: no_digit_ahead_def)
qed

lemma playwright_search_exact:
  assumes "digit_run n" "digit_run m" "digit_run k"
    and "map to_lower p = '' passed''" "map to_lower f = '' failed''" "map to_lower sk = '' skipped''"
    and "list_all (\<lambda>c. \<not> is_digit c) pre"
    and "same_line g1" "list_all (\<lambda>c. \<not> is_digit c) g1"
    and "same_line g2" "list_all (\<lambda>c. \<not> is_digit c) g2"
  shows "rx_search playwright (pre @ n @ p @ g1 @ m @ f @ g2 @ k @ sk @ post) = Some [n, m, k]"
proof -
  have 8: "rx_match [Lit '' skipped''] (sk @ post) [n, m, k] = Some [n, m, k]"
    by (simp only: lit_step[OF assms(6)] rx_match.simps(1))
  have 7: "rx_match [Digits, Lit '' skipped''] (k @ sk @ post) [n, m] = Some [n, m, k]"
    by (rule digits_greedy[OF assms(3) ahead_of_literal[OF assms(6)]]) (simp only: append.simps 8)
  have 6: "rx_match [LazyDots, Digits, Lit '' skipped''] (g2 @ k @ sk @ post) [n, m] = Some [n, m, k]"
    by (rule lazy_gap[OF assms(10)[unfolded same_line_def] assms(11) 7])
  have 5: "rx_match [Lit '' failed'', LazyDots, Digits, Lit '' skipped''] (f @ g2 @ k @ sk @ post) [n, m]
             = Some [n, m, k]"
    by (simp only: lit_step[OF assms(5)] 6)
  have 4: "rx_match [Digits, Lit '' failed'', LazyDots, Digits, Lit '' skipped'']
             (m @ f @ g2 @ k @ sk @ post) [n] = Some [n, m, k]"
    by (rule digits_greedy[OF assms(2) ahead_of_literal[OF assms(5)]]) (simp only: append.simps 5)
  have 3: "rx_match [LazyDots, Digits, Lit '' failed'', LazyDots, Digits, Lit '' skipped'']
             (g1 @ m @ f @ g2 @ k @ sk @ post) [n] = Some [n, m, k]"
    by (rule lazy_gap[OF assms(8)[unfolded same_line_def] assms(9) 4])
  have 2: "rx_match [Lit '' passed'', LazyDots, Digits, Lit '' failed'', LazyDots, Digits, Lit '' skipped'']
             (p @ g1 @ m @ f @ g2 @ k @ sk @ post) [n] = Some [n, m, k]"
    by (simp only: lit_step[OF assms(4)] 3)
  have 1: "rx_match playwright (n @ p @ g1 @ m @ f @ g2 @ k @ sk @ post) [] = Some [n, m, k]"
    unfolding playwright_def
    by (rule digits_greedy[OF assms(1) ahead_of_literal[OF assms(4)]]) (simp only: append.simps 2)
  show ?thesis
    using search_after_text[OF assms(7) 1[unfolded playwright_def]] unfolding playwright_def .
qed

lemma success_observed_exit:
  "success (fst (executeCommand_loop timeoutMs out err p)) \<longleftrightarrow> observed_exit timeoutMs p = Some (Some 0)"
proof (induction p arbitrary: out err)
  case Nil
  show ?case by (simp add: on_timeout_def)
next
  case (Cons x p)
  obtain at e where x: "x = (at, e)" by (cases x)
  show ?case unfolding x using Cons.IH
    by (cases e) (simp_all add: on_timeout_def on_close_def on_error_def)
qed

lemma e2e_report_fields:
  "passed (e2e_report r d) = fst (counts_of (rx_search playwright (exec_result.output' r)))"
  "failed (e2e_report r d) = fst (snd (counts_of (rx_search playwright (exec_result.output' r))))"
  "skipped (e2e_report r d) = snd (snd (counts_of (rx_search playwright (exec_result.output' r))))"
  "E2ETestResult.status (e2e_report r d) = (if success r then E2EPassed else E2EFailed)"
  "E2ETestResult.output' (e2e_report r d) = exec_result.output' r"
  by (simp_all add: e2e_report_def Let_def case_prod_beta)

lemma await_waitForUrl_spawned [simp]: "spawned (snd (await_waitForUrl W url t s)) = spawned s"
  by (simp add: await_waitForUrl_def Let_def suspend_def cancelDeployment_def emitEvent_def
      update_current_def split: option.splits)

lemma e2e_command_result:
  "fst (e2e_command W projectPath e2eConfig startTime s) =
     e2e_report
       (fst (executeCommand (number_or (E2ETestConfig.timeout e2eConfig) 600000)
               (processes W (length (spawned s)) (E2ETestConfig.command e2eConfig)
                  (work_dir projectPath (E2ETestConfig.workingDirectory e2eConfig)))))
       (clock (snd (e2e_command W projectPath e2eConfig startTime s)) - startTime)"
  by (simp add: e2e_command_def await_executeCommand_def Let_def case_prod_beta)

lemma runE2ETests_ran:
  assumes "DeploymentConfig.e2eTests config = Some e2eConfig"
    and "spawned (snd (runE2ETests W projectPath config s)) \<noteq> spawned s"
  shows "\<exists>d. fst (runE2ETests W projectPath config s) =
     e2e_report
       (fst (executeCommand (number_or (E2ETestConfig.timeout e2eConfig) 600000)
               (processes W (length (spawned s)) (E2ETestConfig.command e2eConfig)
                  (work_dir projectPath (E2ETestConfig.workingDirectory e2eConfig))))) d"
proof (cases "truthy_string (E2ETestConfig.waitForUrl e2eConfig)")
  case False
  then have "runE2ETests W projectPath config s = e2e_command W projectPath e2eConfig (clock s) s"
    using assms(1) by (cases "E2ETestConfig.waitForUrl e2eConfig") (simp_all add: runE2ETests_def Let_def)
  then show ?thesis using e2e_command_result[of W projectPath e2eConfig "clock s" s] by metis
next
  case True
  then obtain url where u: "E2ETestConfig.waitForUrl e2eConfig = Some url" "url \<noteq> []"
    by (cases "E2ETestConfig.waitForUrl e2eConfig") auto
  let ?w = "await_waitForUrl W url (number_or (waitTimeout e2eConfig) 60000) s"
  show ?thesis
  proof (cases "fst ?w")
    case False
    then have "spawned (snd (runE2ETests W projectPath config s)) = spawned s"
      using assms(1) u by (simp add: runE2ETests_def Let_def case_prod_beta)
    with assms(2) show ?thesis by simp
  next
    case True
    then have "runE2ETests W projectPath config s = e2e_command W projectPath e2eConfig (clock s) (snd ?w)"
      using assms(1) u by (simp add: runE2ETests_def Let_def case_prod_beta)
    then show ?thesis
      using e2e_command_result[of W projectPath e2eConfig "clock s" "snd ?w"] by (metis await_waitForUrl_spawned)
  qed
qed

lemma counts_of_output:
  "((\<exists>n m k. count_phrase out n m k) \<longrightarrow>
      (\<exists>n m k. count_phrase out n m k
         \<and> counts_of (rx_search playwright out) = (Some (parseInt n), Some (parseInt m), Some (parseInt k))))
   \<and> ((\<forall>n m k. \<not> count_phrase out n m k) \<longrightarrow> counts_of (rx_search playwright out) = (None, None, None))"
proof (cases "rx_search playwright out")
  case None
  have "\<not> count_phrase out n m k" for n m k
  proof
    assume "count_phrase out n m k"
    then obtain pre w post where "out = pre @ w @ post" "rx_lang playwright w [n, m, k]"
      unfolding count_phrase_lang by blast
    then show False using rx_search_complete[of playwright w "[n, m, k]" pre post] None by simp
  qed
  then show ?thesis using None by simp
next
  case (Some cs)
  from rx_search_sound[OF Some] obtain pre w post where o: "out = pre @ w @ post" "rx_lang playwright w cs"
    by blast
  from o(2) obtain n p g1 m f g2 k sk where c: "cs = [n, m, k]"
    by (rule playwright_lang_phrase)
  have "count_phrase out n m k" unfolding count_phrase_lang using o c by blast
  moreover have "counts_of (rx_search playwright out) = (Some (parseInt n), Some (parseInt m), Some (parseInt k))"
    using Some c by simp
  ultimately show ?thesis by blast
qed




end
